theory Spec2Isabelle
  imports Complex_Main "HOL-Library.Word" "HOL-Library.AList" "HOL-Library.Log_Nat"
begin

section \<open>JavaScript strings and the content splitter\<close>

text \<open>
  A JavaScript string is a sequence of 16-bit code units. \<open>lit\<close> writes an ASCII
  literal as such a sequence; the backslash is written by its code unit \<open>0x5C\<close>.
\<close>

type_synonym jsstring = "16 word list"

definition lit :: "string \<Rightarrow> jsstring" where
  "lit s = map of_char s"

text \<open>
  \<open>String.prototype.trim\<close> strips the code units of ECMAScript's WhiteSpace and
  LineTerminator productions from both ends.
\<close>

definition is_ws :: "16 word \<Rightarrow> bool" where
  "is_ws c \<longleftrightarrow>
     c = 0x09 \<or> c = 0x0A \<or> c = 0x0B \<or> c = 0x0C \<or> c = 0x0D \<or> c = 0x20 \<or> c = 0xA0
     \<or> c = 0x1680 \<or> (0x2000 \<le> c \<and> c \<le> 0x200A) \<or> c = 0x2028 \<or> c = 0x2029
     \<or> c = 0x202F \<or> c = 0x205F \<or> c = 0x3000 \<or> c = 0xFEFF"

definition trim :: "jsstring \<Rightarrow> jsstring" where
  "trim s = rev (dropWhile is_ws (rev (dropWhile is_ws s)))"

text \<open>
  \<open>String.prototype.split\<close> with a string separator and no limit. With a non-empty
  separator the text is scanned from the left; at a position where the separator
  matches, the segment collected so far is emitted and the scan resumes after the
  match; the rest of the text is the last segment. With the empty separator the result
  is the list of the single code units (and the empty list for the empty text).
\<close>

fun split_from :: "jsstring \<Rightarrow> jsstring \<Rightarrow> jsstring \<Rightarrow> jsstring list" where
  "split_from sep seg [] = [seg]"
| "split_from sep seg (c # cs) =
     (if take (length sep) (c # cs) = sep
      then seg # split_from sep [] (drop (length sep - 1) cs)
      else split_from sep (seg @ [c]) cs)"

definition split :: "jsstring \<Rightarrow> jsstring \<Rightarrow> jsstring list" where
  "split s sep = (if sep = [] then map (\<lambda>c. [c]) s else split_from sep [] s)"

text \<open>
  The server's splitter, as the POST and PATCH handlers of \<open>/api/feeds\<close> write it:
  \<^verbatim>\<open>full_text.split(separator).map(item => item.trim()).filter(Boolean)\<close>.
  A string is truthy when it is not empty.
\<close>

definition server_split :: "jsstring \<Rightarrow> jsstring \<Rightarrow> jsstring list" where
  "server_split full_text separator =
     filter (\<lambda>item. item \<noteq> []) (map trim (split full_text separator))"

text \<open>
  The client's splitter, \<open>splitContent\<close> of the create and edit feed modals. The two
  placeholders are the two code units backslash, n and the four code units
  backslash, n, backslash, n.
\<close>

definition splitContent :: "jsstring \<Rightarrow> jsstring \<Rightarrow> jsstring list" where
  "splitContent text separator =
     (let actualSeparator = separator;
          actualSeparator = (if separator = [0x5C, 0x6E] then [0x0A] else actualSeparator);
          actualSeparator =
            (if separator = [0x5C, 0x6E, 0x5C, 0x6E] then [0x0A, 0x0A] else actualSeparator)
      in filter (\<lambda>item. length item > 0) (map trim (split text actualSeparator)))"

section \<open>Entities\<close>

text \<open>
  The rows of \<open>shared/schema.ts\<close>. Ids and counters are JavaScript numbers holding
  integers; they are modelled as mathematical integers, which is exact below \<open>2^53\<close>.
  A timestamp is the value of \<open>new Date()\<close>, passed to each operation as \<open>now\<close>.
  A nullable or optional column is an \<open>option\<close>; \<open>active\<close> is optional in the insert
  schema and the in-memory store applies no default, so a stored feed may lack it.
\<close>

type_synonym timestamp = int

record user =
  user_id :: int
  user_username :: jsstring
  user_password :: jsstring
  user_email :: jsstring
  user_name :: jsstring
  user_created_at :: timestamp

record insert_user =
  iu_username :: jsstring
  iu_password :: jsstring
  iu_email :: jsstring
  iu_name :: jsstring

record connection =
  conn_id :: int
  conn_name :: jsstring
  conn_url :: jsstring
  conn_token :: jsstring
  conn_status :: jsstring
  conn_user_id :: int
  conn_icon :: jsstring
  conn_created_at :: timestamp
  conn_updated_at :: timestamp
  conn_projects :: "jsstring option"

record insert_connection =
  ic_name :: jsstring
  ic_url :: jsstring
  ic_token :: jsstring
  ic_status :: jsstring
  ic_user_id :: int
  ic_icon :: jsstring
  ic_projects :: "jsstring option"

text \<open>\<open>Partial<Connection>\<close>: every field may be absent (\<open>None\<close>).\<close>

record connection_patch =
  cp_id :: "int option"
  cp_name :: "jsstring option"
  cp_url :: "jsstring option"
  cp_token :: "jsstring option"
  cp_status :: "jsstring option"
  cp_user_id :: "int option"
  cp_icon :: "jsstring option"
  cp_created_at :: "timestamp option"
  cp_updated_at :: "timestamp option"
  cp_projects :: "jsstring option option"

record feed =
  feed_id :: int
  feed_name :: jsstring
  feed_description :: "jsstring option"
  feed_full_text :: jsstring
  feed_contents :: "jsstring list"
  feed_completed_contents :: "jsstring list"
  feed_separator :: jsstring
  feed_created_at :: timestamp
  feed_updated_at :: timestamp
  feed_user_id :: int
  feed_connection_id :: int
  feed_num_sent :: int
  feed_frequency :: jsstring
  feed_active :: "bool option"

record insert_feed =
  if_name :: jsstring
  if_description :: "jsstring option"
  if_full_text :: jsstring
  if_contents :: "jsstring list"
  if_completed_contents :: "jsstring list"
  if_separator :: jsstring
  if_user_id :: int
  if_connection_id :: int
  if_frequency :: jsstring
  if_active :: "bool option"

text \<open>\<open>Partial<Feed>\<close>.\<close>

record feed_patch =
  fp_id :: "int option"
  fp_name :: "jsstring option"
  fp_description :: "jsstring option option"
  fp_full_text :: "jsstring option"
  fp_contents :: "jsstring list option"
  fp_completed_contents :: "jsstring list option"
  fp_separator :: "jsstring option"
  fp_created_at :: "timestamp option"
  fp_updated_at :: "timestamp option"
  fp_user_id :: "int option"
  fp_connection_id :: "int option"
  fp_num_sent :: "int option"
  fp_frequency :: "jsstring option"
  fp_active :: "bool option"

definition no_feed_patch :: feed_patch where
  "no_feed_patch =
     \<lparr>fp_id = None, fp_name = None, fp_description = None, fp_full_text = None,
      fp_contents = None, fp_completed_contents = None, fp_separator = None,
      fp_created_at = None, fp_updated_at = None, fp_user_id = None,
      fp_connection_id = None, fp_num_sent = None, fp_frequency = None,
      fp_active = None\<rparr>"

definition no_connection_patch :: connection_patch where
  "no_connection_patch =
     \<lparr>cp_id = None, cp_name = None, cp_url = None, cp_token = None, cp_status = None,
      cp_user_id = None, cp_icon = None, cp_created_at = None, cp_updated_at = None,
      cp_projects = None\<rparr>"

section \<open>The in-memory store\<close>

text \<open>
  \<open>MemStorage\<close>: three JavaScript \<open>Map\<close>s and three counters. A \<open>Map\<close> keeps its
  entries in insertion order, so it is an association list: \<open>get\<close> is \<open>map_of\<close>,
  \<open>set\<close> is \<open>AList.update\<close> (in place for a known key, at the end for a new one),
  \<open>delete\<close> is \<open>AList.delete\<close>, \<open>values()\<close> is \<open>map snd\<close>.
\<close>

record store =
  users :: "(int \<times> user) list"
  connections :: "(int \<times> connection) list"
  feeds :: "(int \<times> feed) list"
  userId :: int
  connectionId :: int
  feedId :: int

datatype error = ConnectionNotFound int | FeedNotFound int | TypeError

definition getUser :: "store \<Rightarrow> int \<Rightarrow> user option" where
  "getUser s i = map_of (users s) i"

definition createUser :: "timestamp \<Rightarrow> insert_user \<Rightarrow> store \<Rightarrow> store \<times> user" where
  "createUser now insertUser s =
     (let i = userId s;
          u = \<lparr>user_id = i, user_username = iu_username insertUser,
               user_password = iu_password insertUser, user_email = iu_email insertUser,
               user_name = iu_name insertUser, user_created_at = now\<rparr>
      in (s\<lparr>userId := i + 1, users := AList.update i u (users s)\<rparr>, u))"

text \<open>The constructor: empty maps, counters at 1, then the admin user.\<close>

definition new_store :: "timestamp \<Rightarrow> store" where
  "new_store now =
     fst (createUser now
            \<lparr>iu_username = lit ''admin'', iu_password = lit ''admin'',
             iu_email = lit ''admin@minimind.com'', iu_name = lit ''Admin''\<rparr>
            \<lparr>users = [], connections = [], feeds = [],
             userId = 1, connectionId = 1, feedId = 1\<rparr>)"

definition getConnection :: "store \<Rightarrow> int \<Rightarrow> connection option" where
  "getConnection s i = map_of (connections s) i"

definition getConnectionsByUserId :: "store \<Rightarrow> int \<Rightarrow> connection list" where
  "getConnectionsByUserId s uid =
     filter (\<lambda>c. conn_user_id c = uid) (map snd (connections s))"

definition createConnection ::
  "timestamp \<Rightarrow> insert_connection \<Rightarrow> store \<Rightarrow> store \<times> connection" where
  "createConnection now ins s =
     (let i = connectionId s;
          c = \<lparr>conn_id = i, conn_name = ic_name ins, conn_url = ic_url ins,
               conn_token = ic_token ins, conn_status = ic_status ins,
               conn_user_id = ic_user_id ins, conn_icon = ic_icon ins,
               conn_created_at = now, conn_updated_at = now,
               conn_projects = ic_projects ins\<rparr>
      in (s\<lparr>connectionId := i + 1, connections := AList.update i c (connections s)\<rparr>, c))"

text \<open>
  The object spread \<open>{...existing, ...partial}\<close>: a field the patch supplies replaces
  the stored one, an absent field keeps it.
\<close>

definition spread :: "'a \<Rightarrow> 'a option \<Rightarrow> 'a" where
  "spread old new = (case new of None \<Rightarrow> old | Some v \<Rightarrow> v)"

definition spread_connection :: "connection \<Rightarrow> connection_patch \<Rightarrow> connection" where
  "spread_connection c p =
     \<lparr>conn_id = spread (conn_id c) (cp_id p),
      conn_name = spread (conn_name c) (cp_name p),
      conn_url = spread (conn_url c) (cp_url p),
      conn_token = spread (conn_token c) (cp_token p),
      conn_status = spread (conn_status c) (cp_status p),
      conn_user_id = spread (conn_user_id c) (cp_user_id p),
      conn_icon = spread (conn_icon c) (cp_icon p),
      conn_created_at = spread (conn_created_at c) (cp_created_at p),
      conn_updated_at = spread (conn_updated_at c) (cp_updated_at p),
      conn_projects = spread (conn_projects c) (cp_projects p)\<rparr>"

definition updateConnection ::
  "timestamp \<Rightarrow> int \<Rightarrow> connection_patch \<Rightarrow> store \<Rightarrow> error + store \<times> connection" where
  "updateConnection now i partialConnection s =
     (case map_of (connections s) i of
        None \<Rightarrow> Inl (ConnectionNotFound i)
      | Some existing \<Rightarrow>
          (let updated = (spread_connection existing partialConnection)
                           \<lparr>conn_id := i, conn_updated_at := now\<rparr>
           in Inr (s\<lparr>connections := AList.update i updated (connections s)\<rparr>, updated)))"

definition getFeed :: "store \<Rightarrow> int \<Rightarrow> feed option" where
  "getFeed s i = map_of (feeds s) i"

definition getFeedsByUserId :: "store \<Rightarrow> int \<Rightarrow> feed list" where
  "getFeedsByUserId s uid = filter (\<lambda>f. feed_user_id f = uid) (map snd (feeds s))"

definition getFeedsByConnectionId :: "store \<Rightarrow> int \<Rightarrow> feed list" where
  "getFeedsByConnectionId s cid =
     filter (\<lambda>f. feed_connection_id f = cid) (map snd (feeds s))"

definition createFeed :: "timestamp \<Rightarrow> insert_feed \<Rightarrow> store \<Rightarrow> store \<times> feed" where
  "createFeed now ins s =
     (let i = feedId s;
          f = \<lparr>feed_id = i, feed_name = if_name ins,
               feed_description = if_description ins, feed_full_text = if_full_text ins,
               feed_contents = if_contents ins,
               feed_completed_contents = if_completed_contents ins,
               feed_separator = if_separator ins,
               feed_created_at = now, feed_updated_at = now,
               feed_user_id = if_user_id ins, feed_connection_id = if_connection_id ins,
               feed_num_sent = 0, feed_frequency = if_frequency ins,
               feed_active = if_active ins\<rparr>
      in (s\<lparr>feedId := i + 1, feeds := AList.update i f (feeds s)\<rparr>, f))"

definition spread_feed :: "feed \<Rightarrow> feed_patch \<Rightarrow> feed" where
  "spread_feed f p =
     \<lparr>feed_id = spread (feed_id f) (fp_id p),
      feed_name = spread (feed_name f) (fp_name p),
      feed_description = spread (feed_description f) (fp_description p),
      feed_full_text = spread (feed_full_text f) (fp_full_text p),
      feed_contents = spread (feed_contents f) (fp_contents p),
      feed_completed_contents = spread (feed_completed_contents f) (fp_completed_contents p),
      feed_separator = spread (feed_separator f) (fp_separator p),
      feed_created_at = spread (feed_created_at f) (fp_created_at p),
      feed_updated_at = spread (feed_updated_at f) (fp_updated_at p),
      feed_user_id = spread (feed_user_id f) (fp_user_id p),
      feed_connection_id = spread (feed_connection_id f) (fp_connection_id p),
      feed_num_sent = spread (feed_num_sent f) (fp_num_sent p),
      feed_frequency = spread (feed_frequency f) (fp_frequency p),
      feed_active = (case fp_active p of None \<Rightarrow> feed_active f | Some b \<Rightarrow> Some b)\<rparr>"

definition updateFeed ::
  "timestamp \<Rightarrow> int \<Rightarrow> feed_patch \<Rightarrow> store \<Rightarrow> error + store \<times> feed" where
  "updateFeed now i partialFeed s =
     (case map_of (feeds s) i of
        None \<Rightarrow> Inl (FeedNotFound i)
      | Some existing \<Rightarrow>
          (let updated = (spread_feed existing partialFeed)
                           \<lparr>feed_id := i, feed_updated_at := now\<rparr>
           in Inr (s\<lparr>feeds := AList.update i updated (feeds s)\<rparr>, updated)))"

definition deleteFeed :: "int \<Rightarrow> store \<Rightarrow> store" where
  "deleteFeed i s = s\<lparr>feeds := AList.delete i (feeds s)\<rparr>"

text \<open>
  \<open>deleteConnection\<close> takes the list of dependent feeds first, deletes each by its
  \<open>id\<close> field in a loop, and then deletes the connection.
\<close>

definition deleteConnection :: "int \<Rightarrow> store \<Rightarrow> store" where
  "deleteConnection i s =
     (let feedsToDelete = getFeedsByConnectionId s i;
          s' = fold (\<lambda>f. deleteFeed (feed_id f)) feedsToDelete s
      in s'\<lparr>connections := AList.delete i (connections s')\<rparr>)"

section \<open>The routes\<close>

text \<open>
  A handler takes the authenticated user (\<open>req.user.id\<close>, \<open>None\<close> when
  \<open>req.isAuthenticated()\<close> is false), the parsed \<open>:id\<close> parameter, the request body
  and the store, and returns the store and the response, or the error it throws.
  A path segment that is no number parses to \<open>NaN\<close>, which is never a key of a map and
  so behaves as an absent id. A body is modelled with the types of the schema.
\<close>

datatype payload =
  NoBody
| Message string
| ZodMessage
| ConnectionJson connection
| FeedJson feed

datatype response = Response (status: nat) (body: payload)

definition get_connection ::
  "int option \<Rightarrow> int \<Rightarrow> store \<Rightarrow> error + store \<times> response" where
  "get_connection req_user cid s =
     (case req_user of
        None \<Rightarrow> Inr (s, Response 401 NoBody)
      | Some uid \<Rightarrow>
          (case getConnection s cid of
             None \<Rightarrow> Inr (s, Response 404 (Message ''Connection not found''))
           | Some connection \<Rightarrow>
               if conn_user_id connection \<noteq> uid
               then Inr (s, Response 404 (Message ''Connection not found''))
               else Inr (s, Response 200 (ConnectionJson connection))))"

definition patch_connection ::
  "int option \<Rightarrow> timestamp \<Rightarrow> int \<Rightarrow> connection_patch \<Rightarrow> store \<Rightarrow> error + store \<times> response" where
  "patch_connection req_user now cid req_body s =
     (case req_user of
        None \<Rightarrow> Inr (s, Response 401 NoBody)
      | Some uid \<Rightarrow>
          (case getConnection s cid of
             None \<Rightarrow> Inr (s, Response 404 (Message ''Connection not found''))
           | Some existingConnection \<Rightarrow>
               if conn_user_id existingConnection \<noteq> uid
               then Inr (s, Response 404 (Message ''Connection not found''))
               else (case updateConnection now cid req_body s of
                       Inl e \<Rightarrow> Inl e
                     | Inr (s', connection) \<Rightarrow>
                         Inr (s', Response 200 (ConnectionJson connection)))))"

definition delete_connection ::
  "int option \<Rightarrow> int \<Rightarrow> store \<Rightarrow> error + store \<times> response" where
  "delete_connection req_user cid s =
     (case req_user of
        None \<Rightarrow> Inr (s, Response 401 NoBody)
      | Some uid \<Rightarrow>
          (case getConnection s cid of
             None \<Rightarrow> Inr (s, Response 404 (Message ''Connection not found''))
           | Some existingConnection \<Rightarrow>
               if conn_user_id existingConnection \<noteq> uid
               then Inr (s, Response 404 (Message ''Connection not found''))
               else Inr (deleteConnection cid s, Response 204 NoBody)))"

text \<open>
  The body of \<open>POST /api/feeds\<close>. \<open>insertFeedSchema.parse\<close> keeps the picked columns
  and fails (a \<open>ZodError\<close>, answered with 400) when a column that is neither nullable
  nor defaulted is missing. The handler's own \<open>contents\<close>, \<open>completed_contents\<close> and
  \<open>user_id\<close> come after the spread of the body and replace whatever the body holds
  under these names.
\<close>

record feed_body =
  fb_name :: "jsstring option"
  fb_description :: "jsstring option"
  fb_full_text :: "jsstring option"
  fb_separator :: "jsstring option"
  fb_connection_id :: "int option"
  fb_frequency :: "jsstring option"
  fb_active :: "bool option"

definition insertFeedSchema_parse ::
  "feed_body \<Rightarrow> jsstring list \<Rightarrow> int \<Rightarrow> insert_feed option" where
  "insertFeedSchema_parse b contents uid =
     (case (fb_name b, fb_full_text b, fb_separator b, fb_connection_id b, fb_frequency b) of
        (Some name, Some full_text, Some separator, Some connection_id, Some frequency) \<Rightarrow>
          Some \<lparr>if_name = name, if_description = fb_description b,
                if_full_text = full_text, if_contents = contents,
                if_completed_contents = [], if_separator = separator,
                if_user_id = uid, if_connection_id = connection_id,
                if_frequency = frequency, if_active = fb_active b\<rparr>
      | _ \<Rightarrow> None)"

text \<open>
  \<open>full_text.split(separator)\<close> runs before the schema is consulted: on a missing
  \<open>full_text\<close> it throws a \<open>TypeError\<close>, which the handler rethrows; with a missing
  separator \<open>split(undefined)\<close> is the one-element list of the whole text.
\<close>

definition post_feeds ::
  "int option \<Rightarrow> timestamp \<Rightarrow> feed_body \<Rightarrow> store \<Rightarrow> error + store \<times> response" where
  "post_feeds req_user now req_body s =
     (case req_user of
        None \<Rightarrow> Inr (s, Response 401 NoBody)
      | Some uid \<Rightarrow>
          (case fb_full_text req_body of
             None \<Rightarrow> Inl TypeError
           | Some full_text \<Rightarrow>
               (let contents =
                      (case fb_separator req_body of
                         None \<Rightarrow> filter (\<lambda>item. item \<noteq> []) (map trim [full_text])
                       | Some separator \<Rightarrow> server_split full_text separator)
                in case insertFeedSchema_parse req_body contents uid of
                     None \<Rightarrow> Inr (s, Response 400 ZodMessage)
                   | Some feedData \<Rightarrow>
                       (let (s', feed) = createFeed now feedData s
                        in Inr (s', Response 201 (FeedJson feed))))))"

definition get_feed ::
  "int option \<Rightarrow> int \<Rightarrow> store \<Rightarrow> error + store \<times> response" where
  "get_feed req_user fid s =
     (case req_user of
        None \<Rightarrow> Inr (s, Response 401 NoBody)
      | Some uid \<Rightarrow>
          (case getFeed s fid of
             None \<Rightarrow> Inr (s, Response 404 (Message ''Feed not found''))
           | Some feed \<Rightarrow>
               if feed_user_id feed \<noteq> uid
               then Inr (s, Response 404 (Message ''Feed not found''))
               else Inr (s, Response 200 (FeedJson feed))))"

text \<open>
  \<open>PATCH /api/feeds/:id\<close>. The guard \<open>updateData.full_text && updateData.separator\<close>
  tests truthiness: a string passes when it is present and not empty.
\<close>

definition truthy :: "jsstring option \<Rightarrow> bool" where
  "truthy v = (case v of None \<Rightarrow> False | Some str \<Rightarrow> str \<noteq> [])"

definition patch_feed ::
  "int option \<Rightarrow> timestamp \<Rightarrow> int \<Rightarrow> feed_patch \<Rightarrow> store \<Rightarrow> error + store \<times> response" where
  "patch_feed req_user now fid req_body s =
     (case req_user of
        None \<Rightarrow> Inr (s, Response 401 NoBody)
      | Some uid \<Rightarrow>
          (case getFeed s fid of
             None \<Rightarrow> Inr (s, Response 404 (Message ''Feed not found''))
           | Some existingFeed \<Rightarrow>
               if feed_user_id existingFeed \<noteq> uid
               then Inr (s, Response 404 (Message ''Feed not found''))
               else
                 (let updateData = req_body;
                      updateData =
                        (if truthy (fp_full_text updateData) \<and> truthy (fp_separator updateData)
                         then updateData\<lparr>fp_contents :=
                                Some (server_split (the (fp_full_text updateData))
                                                   (the (fp_separator updateData)))\<rparr>
                         else updateData)
                  in case updateFeed now fid updateData s of
                       Inl e \<Rightarrow> Inl e
                     | Inr (s', feed) \<Rightarrow> Inr (s', Response 200 (FeedJson feed)))))"

text \<open>
  \<open>PATCH /api/feeds/:id/toggle\<close> sends the one-field patch
  \<open>{ active: !existingFeed.active }\<close>; the negation of a missing flag is \<open>true\<close>.
\<close>

definition js_not :: "bool option \<Rightarrow> bool" where
  "js_not v = (case v of None \<Rightarrow> True | Some b \<Rightarrow> \<not> b)"

definition toggle_feed ::
  "int option \<Rightarrow> timestamp \<Rightarrow> int \<Rightarrow> store \<Rightarrow> error + store \<times> response" where
  "toggle_feed req_user now fid s =
     (case req_user of
        None \<Rightarrow> Inr (s, Response 401 NoBody)
      | Some uid \<Rightarrow>
          (case getFeed s fid of
             None \<Rightarrow> Inr (s, Response 404 (Message ''Feed not found''))
           | Some existingFeed \<Rightarrow>
               if feed_user_id existingFeed \<noteq> uid
               then Inr (s, Response 404 (Message ''Feed not found''))
               else (case updateFeed now fid
                            (no_feed_patch\<lparr>fp_active := Some (js_not (feed_active existingFeed))\<rparr>) s of
                       Inl e \<Rightarrow> Inl e
                     | Inr (s', feed) \<Rightarrow> Inr (s', Response 200 (FeedJson feed)))))"

definition delete_feed ::
  "int option \<Rightarrow> int \<Rightarrow> store \<Rightarrow> error + store \<times> response" where
  "delete_feed req_user fid s =
     (case req_user of
        None \<Rightarrow> Inr (s, Response 401 NoBody)
      | Some uid \<Rightarrow>
          (case getFeed s fid of
             None \<Rightarrow> Inr (s, Response 404 (Message ''Feed not found''))
           | Some existingFeed \<Rightarrow>
               if feed_user_id existingFeed \<noteq> uid
               then Inr (s, Response 404 (Message ''Feed not found''))
               else Inr (deleteFeed fid s, Response 204 NoBody)))"

section \<open>Feed progress\<close>

text \<open>
  JavaScript numbers are IEEE 754 binary64 values. A finite one is a rational number, and
  each arithmetic operation returns the exact result rounded to the nearest value with a
  53-bit significand, ties to the even significand. \<open>ilog2 x\<close> is the binary exponent
  of a positive \<open>x\<close>, the integer \<open>e\<close> with \<open>2^e \<le> x < 2^(e+1)\<close>; \<open>fl\<close> is the rounding.
  The exponent range is not modelled: the values of \<open>completionRate\<close> stay far inside it
  for every \<open>num_sent\<close> that is an integer-valued double below \<open>2^1000\<close> in magnitude.
\<close>

definition round_even :: "rat \<Rightarrow> int" where
  "round_even x =
     (let f = \<lfloor>x\<rfloor>; d = x - of_int f
      in if d < 1/2 then f else if 1/2 < d then f + 1 else if even f then f else f + 1)"

definition ilog2 :: "rat \<Rightarrow> int" where
  "ilog2 x =
     (let (p, q) = quotient_of x; d = bitlen p - bitlen q
      in if 2 powi d \<le> x then d else d - 1)"

definition fl :: "rat \<Rightarrow> rat" where
  "fl x =
     (if x = 0 then 0
      else let u = 2 powi (ilog2 \<bar>x\<bar> - 52) in of_int (round_even (x / u)) * u)"

definition fdiv :: "rat \<Rightarrow> rat \<Rightarrow> rat" where
  "fdiv a b = fl (a / b)"

definition fmul :: "rat \<Rightarrow> rat \<Rightarrow> rat" where
  "fmul a b = fl (a * b)"

text \<open>\<open>Math.round\<close>: the nearest integer, a tie going up.\<close>

definition Math_round :: "rat \<Rightarrow> int" where
  "Math_round x = \<lfloor>x + 1/2\<rfloor>"

text \<open>
  \<open>FeedCard\<close>'s progress bar:
  \<^verbatim>\<open>feed.contents.length > 0 ? Math.round((feed.num_sent / feed.contents.length) * 100) : 0\<close>.
\<close>

definition completionRate :: "feed \<Rightarrow> int" where
  "completionRate feed =
     (if length (feed_contents feed) > 0
      then Math_round (fmul (fdiv (of_int (feed_num_sent feed))
                                  (of_nat (length (feed_contents feed)))) 100)
      else 0)"

text \<open>The value of the progress bar as a function of the two numbers it reads.\<close>

definition rate :: "int \<Rightarrow> nat \<Rightarrow> int" where
  "rate n len = Math_round (fmul (fdiv (of_int n) (of_nat len)) 100)"

text \<open>
  The accessor as the specification words it, \<open>round(num_sent / contents.length * 100)\<close>
  and 0 for no contents, read in exact arithmetic; \<open>round\<close> is the nearest integer, a
  tie going up as in \<open>Math.round\<close>.
\<close>

definition completionPercent_spec :: "feed \<Rightarrow> int" where
  "completionPercent_spec feed =
     (if length (feed_contents feed) = 0 then 0
      else round ((of_int (feed_num_sent feed) :: rat)
                    / of_nat (length (feed_contents feed)) * 100))"

section \<open>Histories of a store\<close>

text \<open>
  The mutating operations of \<open>IStorage\<close>. An update of a missing id throws and leaves
  the store as it was. A store is reachable when it results from the constructor by a
  sequence of these operations; every route works through them.
\<close>

datatype op =
  CreateUser timestamp insert_user
| CreateConnection timestamp insert_connection
| UpdateConnection timestamp int connection_patch
| DeleteConnection int
| CreateFeed timestamp insert_feed
| UpdateFeed timestamp int feed_patch
| DeleteFeed int

fun apply_op :: "op \<Rightarrow> store \<Rightarrow> store" where
  "apply_op (CreateUser now ins) s = fst (createUser now ins s)"
| "apply_op (CreateConnection now ins) s = fst (createConnection now ins s)"
| "apply_op (UpdateConnection now i p) s =
     (case updateConnection now i p s of Inl e \<Rightarrow> s | Inr r \<Rightarrow> fst r)"
| "apply_op (DeleteConnection i) s = deleteConnection i s"
| "apply_op (CreateFeed now ins) s = fst (createFeed now ins s)"
| "apply_op (UpdateFeed now i p) s =
     (case updateFeed now i p s of Inl e \<Rightarrow> s | Inr r \<Rightarrow> fst r)"
| "apply_op (DeleteFeed i) s = deleteFeed i s"

inductive reachable :: "store \<Rightarrow> bool" where
  reachable_new: "reachable (new_store now)"
| reachable_op: "reachable s \<Longrightarrow> reachable (apply_op x s)"

text \<open>The ids that the creates of a history hand out, in order, per kind of entity.\<close>

fun user_ids :: "op list \<Rightarrow> store \<Rightarrow> int list" where
  "user_ids [] s = []"
| "user_ids (CreateUser now ins # xs) s =
     user_id (snd (createUser now ins s)) # user_ids xs (apply_op (CreateUser now ins) s)"
| "user_ids (x # xs) s = user_ids xs (apply_op x s)"

fun connection_ids :: "op list \<Rightarrow> store \<Rightarrow> int list" where
  "connection_ids [] s = []"
| "connection_ids (CreateConnection now ins # xs) s =
     conn_id (snd (createConnection now ins s))
       # connection_ids xs (apply_op (CreateConnection now ins) s)"
| "connection_ids (x # xs) s = connection_ids xs (apply_op x s)"

fun feed_ids :: "op list \<Rightarrow> store \<Rightarrow> int list" where
  "feed_ids [] s = []"
| "feed_ids (CreateFeed now ins # xs) s =
     feed_id (snd (createFeed now ins s)) # feed_ids xs (apply_op (CreateFeed now ins) s)"
| "feed_ids (x # xs) s = feed_ids xs (apply_op x s)"

text \<open>
  What every reachable store satisfies: a map holds each key once, and an entity is
  filed under its own id.
\<close>

definition store_inv :: "store \<Rightarrow> bool" where
  "store_inv s \<longleftrightarrow>
     distinct (map fst (connections s)) \<and> distinct (map fst (feeds s))
     \<and> list_all (\<lambda>(k, c). conn_id c = k) (connections s)
     \<and> list_all (\<lambda>(k, f). feed_id f = k) (feeds s)"

section \<open>Sample data\<close>

definition sample_insert_feed :: "int \<Rightarrow> int \<Rightarrow> insert_feed" where
  "sample_insert_feed uid cid =
     \<lparr>if_name = lit ''quotes'', if_description = None, if_full_text = lit ''a,b'',
      if_contents = [lit ''a'', lit ''b''], if_completed_contents = [],
      if_separator = lit '','', if_user_id = uid, if_connection_id = cid,
      if_frequency = lit ''Daily'', if_active = Some True\<rparr>"

definition sample_insert_connection :: "int \<Rightarrow> insert_connection" where
  "sample_insert_connection uid =
     \<lparr>ic_name = lit ''mail'', ic_url = lit ''https://mail'', ic_token = lit ''t'',
      ic_status = lit ''Connected'', ic_user_id = uid, ic_icon = lit ''gmail'',
      ic_projects = None\<rparr>"

text \<open>
  Two connections of user 1: connection 1 with the feeds 1 and 2, connection 2 with the
  feed 3.
\<close>

definition sample_store :: store where
  "sample_store =
     fold apply_op
       [CreateConnection 10 (sample_insert_connection 1),
        CreateConnection 15 (sample_insert_connection 1),
        CreateFeed 20 (sample_insert_feed 1 1),
        CreateFeed 30 (sample_insert_feed 1 1),
        CreateFeed 40 (sample_insert_feed 1 2)]
       (new_store 0)"

text \<open>A patch that supplies an id, an owner, a creation time and an update time.\<close>

definition sample_feed_patch :: feed_patch where
  "sample_feed_patch =
     no_feed_patch\<lparr>fp_id := Some 77, fp_user_id := Some 8, fp_created_at := Some 3,
                   fp_updated_at := Some 5\<rparr>"

definition sample_connection_patch :: connection_patch where
  "sample_connection_patch =
     no_connection_patch\<lparr>cp_id := Some 77, cp_user_id := Some 8, cp_created_at := Some 3,
                         cp_updated_at := Some 5\<rparr>"

text \<open>
  Four patches of a feed: both fields present but the text empty; the text and a
  \<open>contents\<close> of the sender's own, no separator; the text alone; a text and a
  separator.
\<close>

definition stale_patch :: feed_patch where
  "stale_patch = no_feed_patch\<lparr>fp_full_text := Some [], fp_separator := Some (lit '','')\<rparr>"

definition contents_patch :: feed_patch where
  "contents_patch =
     no_feed_patch\<lparr>fp_full_text := Some (lit ''c,d''), fp_contents := Some [lit ''z'']\<rparr>"

definition text_patch :: feed_patch where
  "text_patch = no_feed_patch\<lparr>fp_full_text := Some (lit ''c,d'')\<rparr>"

definition resplit_patch :: feed_patch where
  "resplit_patch =
     no_feed_patch\<lparr>fp_full_text := Some (lit ''p; q''), fp_separator := Some (lit '';'')\<rparr>"

text \<open>A feed of \<open>len\<close> items of which \<open>n\<close> count as sent, and a patch that sets the count.\<close>

definition progress_feed :: "int \<Rightarrow> nat \<Rightarrow> feed" where
  "progress_feed n len =
     \<lparr>feed_id = 1, feed_name = lit ''quotes'', feed_description = None,
      feed_full_text = concat (replicate len (lit ''item,'')),
      feed_contents = replicate len (lit ''item''), feed_completed_contents = [],
      feed_separator = lit '','', feed_created_at = 0, feed_updated_at = 0,
      feed_user_id = 1, feed_connection_id = 1, feed_num_sent = n,
      feed_frequency = lit ''Daily'', feed_active = Some True\<rparr>"

definition sent_patch :: feed_patch where
  "sent_patch = no_feed_patch\<lparr>fp_num_sent := Some 5\<rparr>"

section \<open>Properties of the content splitter\<close>

lemma trim_prefix: "\<exists>zs. dropWhile is_ws s = trim s @ zs"
proof -
  have "rev (dropWhile is_ws r) @ rev (takeWhile is_ws r) = rev r" for r :: jsstring
    by (simp flip: rev_append)
  from this[of "rev (dropWhile is_ws s)"]
  have "dropWhile is_ws s = trim s @ rev (takeWhile is_ws (rev (dropWhile is_ws s)))"
    by (simp add: trim_def)
  then show ?thesis ..
qed

lemma trim_hd: assumes "trim s \<noteq> []" shows "\<not> is_ws (hd (trim s))"
proof -
  obtain zs where eq: "dropWhile is_ws s = trim s @ zs" using trim_prefix by blast
  with assms have ne: "dropWhile is_ws s \<noteq> []" by auto
  have "hd (dropWhile is_ws s) = hd (trim s)" using eq assms by (metis hd_append2)
  with hd_dropWhile[OF ne] show ?thesis by simp
qed

lemma trim_last: assumes "trim s \<noteq> []" shows "\<not> is_ws (last (trim s))"
proof -
  let ?d = "dropWhile is_ws (rev (dropWhile is_ws s))"
  from assms have ne: "?d \<noteq> []" by (simp add: trim_def)
  have "last (trim s) = hd ?d" using ne by (simp add: trim_def last_rev)
  with hd_dropWhile[OF ne] show ?thesis by simp
qed

lemma trim_fixed:
  assumes "x \<noteq> []" "\<not> is_ws (hd x)" "\<not> is_ws (last x)"
  shows "trim x = x"
proof -
  have a: "dropWhile is_ws x = x" using assms by (cases x) auto
  have "rev x \<noteq> []" "\<not> is_ws (hd (rev x))" using assms by (simp_all add: hd_rev)
  then have b: "dropWhile is_ws (rev x) = rev x" by (cases "rev x") auto
  show ?thesis by (simp add: trim_def a b)
qed

lemma trim_idem: "trim (trim s) = trim s"
proof (cases "trim s = []")
  case True
  have "trim [] = []" by (simp add: trim_def)
  with True show ?thesis by simp
next
  case False then show ?thesis by (intro trim_fixed trim_hd trim_last)
qed

lemma trim_not_blank: assumes "trim s \<noteq> []" shows "\<not> list_all is_ws (trim s)"
proof
  assume "list_all is_ws (trim s)"
  then have "is_ws (hd (trim s))" using assms by (cases "trim s") auto
  with trim_hd[OF assms] show False by simp
qed

text \<open>
  C7. For every text and every separator, no item that the splitter returns is empty or
  made of whitespace only: each item is non-empty, is its own trimmed form, and begins
  and ends with a code unit that is no whitespace. This holds for the server's split
  and for the client's \<open>splitContent\<close> alike.
\<close>

theorem split_items_trimmed_nonempty:
  "\<forall>item \<in> set (server_split full_text separator) \<union> set (splitContent full_text separator).
     item \<noteq> [] \<and> trim item = item \<and> \<not> list_all is_ws item
     \<and> \<not> is_ws (hd item) \<and> \<not> is_ws (last item)"
  by (auto simp: server_split_def splitContent_def Let_def trim_idem
           dest: trim_not_blank trim_hd trim_last)

theorem split_items_trimmed_nonempty_witness:
  "server_split (lit ''a, b ,,c'') (lit '','') = [lit ''a'', lit ''b'', lit ''c'']
   \<and> lit ''b'' \<noteq> [] \<and> trim (lit ''b'') = lit ''b'' \<and> \<not> list_all is_ws (lit ''b'')"
proof -
  have eq: "server_split (lit ''a, b ,,c'') (lit '','') = [lit ''a'', lit ''b'', lit ''c'']"
    by (simp add: server_split_def split_def trim_def is_ws_def lit_def)
  from split_items_trimmed_nonempty[of "lit ''a, b ,,c''" "lit '',''"] eq
  show ?thesis by simp
qed

section \<open>Association lists\<close>

lemma list_all_update:
  "list_all P al \<Longrightarrow> P (k, v) \<Longrightarrow> list_all P (AList.update k v al)"
  by (induction al) auto

lemma list_all_delete: "list_all P al \<Longrightarrow> list_all P (AList.delete k al)"
  by (simp add: AList.delete_eq list_all_iff)


section \<open>The invariant\<close>

lemma store_inv_new: "store_inv (new_store now)"
  by (simp add: store_inv_def new_store_def createUser_def Let_def)

lemma store_inv_createUser: "store_inv s \<Longrightarrow> store_inv (fst (createUser now ins s))"
  by (simp add: store_inv_def createUser_def Let_def)

lemma store_inv_createConnection:
  "store_inv s \<Longrightarrow> store_inv (fst (createConnection now ins s))"
  by (simp add: store_inv_def createConnection_def Let_def distinct_update list_all_update)

lemma store_inv_createFeed: "store_inv s \<Longrightarrow> store_inv (fst (createFeed now ins s))"
  by (simp add: store_inv_def createFeed_def Let_def distinct_update list_all_update)

lemma store_inv_updateConnection:
  "store_inv s \<Longrightarrow> updateConnection now i p s = Inr r \<Longrightarrow> store_inv (fst r)"
  by (auto simp: store_inv_def updateConnection_def Let_def distinct_update list_all_update
           split: option.splits)

lemma store_inv_updateFeed:
  "store_inv s \<Longrightarrow> updateFeed now i p s = Inr r \<Longrightarrow> store_inv (fst r)"
  by (auto simp: store_inv_def updateFeed_def Let_def distinct_update list_all_update
           split: option.splits)

lemma store_inv_deleteFeed: "store_inv s \<Longrightarrow> store_inv (deleteFeed i s)"
  by (simp add: store_inv_def deleteFeed_def distinct_delete list_all_delete)

lemma store_inv_fold_deleteFeed:
  "store_inv s \<Longrightarrow> store_inv (fold (\<lambda>f. deleteFeed (feed_id f)) fs s)"
  by (induction fs arbitrary: s) (simp_all add: store_inv_deleteFeed)

lemma fold_deleteFeed_frame:
  "connections (fold (\<lambda>f. deleteFeed (feed_id f)) fs s) = connections s"
  "users (fold (\<lambda>f. deleteFeed (feed_id f)) fs s) = users s"
  "userId (fold (\<lambda>f. deleteFeed (feed_id f)) fs s) = userId s"
  "connectionId (fold (\<lambda>f. deleteFeed (feed_id f)) fs s) = connectionId s"
  "feedId (fold (\<lambda>f. deleteFeed (feed_id f)) fs s) = feedId s"
  by (induction fs arbitrary: s) (simp_all add: deleteFeed_def)


lemma store_inv_deleteConnection: "store_inv s \<Longrightarrow> store_inv (deleteConnection i s)"
proof -
  assume "store_inv s"
  then have "store_inv (fold (\<lambda>f. deleteFeed (feed_id f)) (getFeedsByConnectionId s i) s)"
    by (rule store_inv_fold_deleteFeed)
  then show ?thesis
    by (simp add: deleteConnection_def Let_def store_inv_def distinct_delete list_all_delete)
qed

lemma store_inv_apply_op: "store_inv s \<Longrightarrow> store_inv (apply_op x s)"
  by (cases x)
    (auto simp: store_inv_createUser store_inv_createConnection store_inv_createFeed
        store_inv_deleteConnection store_inv_deleteFeed
      dest: store_inv_updateConnection store_inv_updateFeed split: sum.splits)

lemma reachable_store_inv: "reachable s \<Longrightarrow> store_inv s"
  by (induction rule: reachable.induct) (simp_all add: store_inv_new store_inv_apply_op)

lemma store_inv_feed_id: "store_inv s \<Longrightarrow> getFeed s k = Some f \<Longrightarrow> feed_id f = k"
  by (auto simp: store_inv_def getFeed_def list_all_iff dest!: map_of_SomeD)

lemma store_inv_conn_id: "store_inv s \<Longrightarrow> getConnection s k = Some c \<Longrightarrow> conn_id c = k"
  by (auto simp: store_inv_def getConnection_def list_all_iff dest!: map_of_SomeD)

text \<open>The routes lead from reachable stores to reachable stores.\<close>

lemma reachable_updateFeed:
  "reachable s \<Longrightarrow> updateFeed now i p s = Inr (s', f) \<Longrightarrow> reachable s'"
  using reachable_op[of s "UpdateFeed now i p"] by simp

lemma reachable_updateConnection:
  "reachable s \<Longrightarrow> updateConnection now i p s = Inr (s', c) \<Longrightarrow> reachable s'"
  using reachable_op[of s "UpdateConnection now i p"] by simp

lemma reachable_createFeed:
  "reachable s \<Longrightarrow> createFeed now ins s = (s', f) \<Longrightarrow> reachable s'"
  using reachable_op[of s "CreateFeed now ins"] by simp

lemma reachable_deleteFeed: "reachable s \<Longrightarrow> reachable (deleteFeed i s)"
  using reachable_op[of s "DeleteFeed i"] by simp

lemma reachable_deleteConnection: "reachable s \<Longrightarrow> reachable (deleteConnection i s)"
  using reachable_op[of s "DeleteConnection i"] by simp

lemma routes_reachable:
  assumes "reachable s"
  shows "get_connection u i s = Inr (s', r) \<Longrightarrow> reachable s'"
    and "patch_connection u now i q s = Inr (s', r) \<Longrightarrow> reachable s'"
    and "delete_connection u i s = Inr (s', r) \<Longrightarrow> reachable s'"
    and "post_feeds u now b s = Inr (s', r) \<Longrightarrow> reachable s'"
    and "get_feed u i s = Inr (s', r) \<Longrightarrow> reachable s'"
    and "patch_feed u now i p s = Inr (s', r) \<Longrightarrow> reachable s'"
    and "toggle_feed u now i s = Inr (s', r) \<Longrightarrow> reachable s'"
    and "delete_feed u i s = Inr (s', r) \<Longrightarrow> reachable s'"
  using assms
  by (auto simp: get_connection_def patch_connection_def delete_connection_def post_feeds_def
        get_feed_def patch_feed_def toggle_feed_def delete_feed_def Let_def
      split: option.splits if_splits sum.splits prod.splits
      intro: reachable_deleteFeed reachable_deleteConnection
      dest: reachable_updateFeed reachable_updateConnection reachable_createFeed)

section \<open>Cascading delete\<close>

lemma reachable_fold: "reachable s \<Longrightarrow> reachable (fold apply_op xs s)"
  by (induction xs arbitrary: s) (simp_all add: reachable_op)

lemma reachable_sample_store: "reachable sample_store"
  unfolding sample_store_def by (rule reachable_fold) (rule reachable_new)



lemma deleteConnection_frame:
  "users (deleteConnection cid s) = users s"
  "userId (deleteConnection cid s) = userId s"
  "connectionId (deleteConnection cid s) = connectionId s"
  "feedId (deleteConnection cid s) = feedId s"
  "connections (deleteConnection cid s) = AList.delete cid (connections s)"
  by (simp_all add: deleteConnection_def Let_def fold_deleteFeed_frame)



section \<open>Identifiers\<close>

lemma apply_op_counters:
  "userId s \<le> userId (apply_op x s)"
  "connectionId s \<le> connectionId (apply_op x s)"
  "feedId s \<le> feedId (apply_op x s)"
  by (cases x; simp add: createUser_def createConnection_def createFeed_def Let_def
        updateConnection_def updateFeed_def deleteFeed_def deleteConnection_frame
        split: option.splits sum.splits)+

lemma feed_ids_Cons:
  "feed_ids (x # xs) s =
     (case x of CreateFeed now ins \<Rightarrow> feedId s # feed_ids xs (apply_op x s)
      | _ \<Rightarrow> feed_ids xs (apply_op x s))"
  by (cases x) (simp_all add: createFeed_def Let_def)

lemma feed_ids_increasing:
  "sorted_wrt (<) (feed_ids xs s) \<and> (\<forall>i \<in> set (feed_ids xs s). feedId s \<le> i)"
proof (induction xs arbitrary: s)
  case Nil
  then show ?case by simp
next
  case (Cons x xs)
  let ?s = "apply_op x s"
  from Cons[of ?s] have sorted: "sorted_wrt (<) (feed_ids xs ?s)"
    and lower: "\<And>i. i \<in> set (feed_ids xs ?s) \<Longrightarrow> feedId ?s \<le> i" by auto
  have le: "feedId s \<le> feedId ?s" by (rule apply_op_counters)
  show ?case
  proof (cases x)
    case (CreateFeed now ins)
    then have "feedId ?s = feedId s + 1" by (simp add: createFeed_def Let_def)
    with lower have "\<And>i. i \<in> set (feed_ids xs ?s) \<Longrightarrow> feedId s < i" by fastforce
    with sorted CreateFeed show ?thesis by (auto simp: feed_ids_Cons intro: less_imp_le)
  qed (use sorted lower le in \<open>auto simp: feed_ids_Cons intro: order_trans\<close>)
qed

lemma user_ids_Cons:
  "user_ids (x # xs) s =
     (case x of CreateUser now ins \<Rightarrow> userId s # user_ids xs (apply_op x s)
      | _ \<Rightarrow> user_ids xs (apply_op x s))"
  by (cases x) (simp_all add: createUser_def Let_def)

lemma user_ids_increasing:
  "sorted_wrt (<) (user_ids xs s) \<and> (\<forall>i \<in> set (user_ids xs s). userId s \<le> i)"
proof (induction xs arbitrary: s)
  case Nil
  then show ?case by simp
next
  case (Cons x xs)
  let ?s = "apply_op x s"
  from Cons[of ?s] have sorted: "sorted_wrt (<) (user_ids xs ?s)"
    and lower: "\<And>i. i \<in> set (user_ids xs ?s) \<Longrightarrow> userId ?s \<le> i" by auto
  have le: "userId s \<le> userId ?s" by (rule apply_op_counters)
  show ?case
  proof (cases x)
    case (CreateUser now ins)
    then have "userId ?s = userId s + 1" by (simp add: createUser_def Let_def)
    with lower have "\<And>i. i \<in> set (user_ids xs ?s) \<Longrightarrow> userId s < i" by fastforce
    with sorted CreateUser show ?thesis by (auto simp: user_ids_Cons intro: less_imp_le)
  qed (use sorted lower le in \<open>auto simp: user_ids_Cons intro: order_trans\<close>)
qed

lemma connection_ids_Cons:
  "connection_ids (x # xs) s =
     (case x of CreateConnection now ins \<Rightarrow> connectionId s # connection_ids xs (apply_op x s)
      | _ \<Rightarrow> connection_ids xs (apply_op x s))"
  by (cases x) (simp_all add: createConnection_def Let_def)

lemma connection_ids_increasing:
  "sorted_wrt (<) (connection_ids xs s)
   \<and> (\<forall>i \<in> set (connection_ids xs s). connectionId s \<le> i)"
proof (induction xs arbitrary: s)
  case Nil
  then show ?case by simp
next
  case (Cons x xs)
  let ?s = "apply_op x s"
  from Cons[of ?s] have sorted: "sorted_wrt (<) (connection_ids xs ?s)"
    and lower: "\<And>i. i \<in> set (connection_ids xs ?s) \<Longrightarrow> connectionId ?s \<le> i" by auto
  have le: "connectionId s \<le> connectionId ?s" by (rule apply_op_counters)
  show ?case
  proof (cases x)
    case (CreateConnection now ins)
    then have "connectionId ?s = connectionId s + 1"
      by (simp add: createConnection_def Let_def)
    with lower have "\<And>i. i \<in> set (connection_ids xs ?s) \<Longrightarrow> connectionId s < i"
      by fastforce
    with sorted CreateConnection show ?thesis
      by (auto simp: connection_ids_Cons intro: less_imp_le)
  qed (use sorted lower le in \<open>auto simp: connection_ids_Cons intro: order_trans\<close>)
qed

text \<open>
  C8. Ids are handed out in strictly increasing order and never again: along every
  history of operations from the constructor, creates, updates and deletes in any order,
  the ids that the creates of one kind of entity assign form a strictly increasing
  sequence (for users it continues the admin's id of the constructor). In particular
  create, delete, create on a new store assigns the two ids 1 and 2.
\<close>

theorem ids_never_reused:
  "sorted_wrt (<) (map fst (users (new_store now)) @ user_ids xs (new_store now))
   \<and> sorted_wrt (<) (connection_ids xs (new_store now))
   \<and> sorted_wrt (<) (feed_ids xs (new_store now))
   \<and> user_ids [CreateUser t1 a, CreateUser t2 a'] (new_store now) = [2, 3]
   \<and> connection_ids [CreateConnection t1 b, DeleteConnection 1, CreateConnection t2 b']
        (new_store now) = [1, 2]
   \<and> feed_ids [CreateFeed t1 c, DeleteFeed 1, CreateFeed t2 c'] (new_store now) = [1, 2]"
proof -
  have u: "map fst (users (new_store now)) = [1]" "userId (new_store now) = 2"
    "connectionId (new_store now) = 1" "feedId (new_store now) = 1"
    by (simp_all add: new_store_def createUser_def Let_def)
  have "\<forall>i \<in> set (user_ids xs (new_store now)). 1 < i"
    using user_ids_increasing[of xs "new_store now"] u by fastforce
  then have "sorted_wrt (<) (map fst (users (new_store now)) @ user_ids xs (new_store now))"
    using user_ids_increasing[of xs "new_store now"] u by simp
  moreover have "user_ids [CreateUser t1 a, CreateUser t2 a'] (new_store now) = [2, 3]"
    by (simp add: u createUser_def Let_def)
  moreover have "connection_ids [CreateConnection t1 b, DeleteConnection 1, CreateConnection t2 b']
        (new_store now) = [1, 2]"
    by (simp add: u createConnection_def Let_def deleteConnection_frame)
  moreover have "feed_ids [CreateFeed t1 c, DeleteFeed 1, CreateFeed t2 c'] (new_store now) = [1, 2]"
    by (simp add: u createFeed_def Let_def deleteFeed_def)
  ultimately show ?thesis
    using connection_ids_increasing[of xs "new_store now"] feed_ids_increasing[of xs "new_store now"]
    by simp
qed

section \<open>Creating a feed\<close>

lemma xy_server: "server_split (lit ''x\<newline>y'') [0x5C, 0x6E] = [lit ''x\<newline>y'']"
  by (simp add: server_split_def split_def trim_def is_ws_def lit_def)

lemma xy_client: "splitContent (lit ''x\<newline>y'') [0x5C, 0x6E] = [lit ''x'', lit ''y'']"
  by (simp add: splitContent_def split_def trim_def is_ws_def lit_def)

lemma Math_round_0: "Math_round 0 = 0"
  by (simp add: Math_round_def floor_eq_iff)

lemma completionRate_unsent: "feed_num_sent f = 0 \<Longrightarrow> completionRate f = 0"
  by (simp add: completionRate_def fdiv_def fmul_def fl_def Math_round_0)

text \<open>
  C1. The client's \<open>splitContent\<close> resolves the placeholder: for the text x, newline,
  y and the two-character separator backslash, n it returns the two items x and y. The
  POST handler does not: it splits on the separator as sent, so the feed it stores for
  this request has the single item x, newline, y. Its \<open>num_sent\<close> and its completion
  rate are 0.
\<close>

theorem post_feeds_placeholder_not_resolved:
  "\<exists>s' feed.
     post_feeds (Some uid) now
       \<lparr>fb_name = Some name, fb_description = description,
        fb_full_text = Some (lit ''x\<newline>y''), fb_separator = Some [0x5C, 0x6E],
        fb_connection_id = Some connection_id, fb_frequency = Some frequency,
        fb_active = active\<rparr> s
       = Inr (s', Response 201 (FeedJson feed))
     \<and> getFeed s' (feed_id feed) = Some feed
     \<and> feed_separator feed = [0x5C, 0x6E]
     \<and> feed_contents feed = [lit ''x\<newline>y'']
     \<and> feed_contents feed \<noteq> [lit ''x'', lit ''y'']
     \<and> feed_num_sent feed = 0 \<and> completionRate feed = 0
     \<and> splitContent (lit ''x\<newline>y'') [0x5C, 0x6E] = [lit ''x'', lit ''y'']"
  by (simp add: post_feeds_def insertFeedSchema_parse_def createFeed_def Let_def
        getFeed_def update_conv' xy_server xy_client completionRate_unsent)

section \<open>Updates\<close>

lemma updateFeed_Some:
  assumes "getFeed s i = Some f"
  shows "updateFeed now i p s =
           Inr (s\<lparr>feeds := AList.update i ((spread_feed f p)\<lparr>feed_id := i, feed_updated_at := now\<rparr>) (feeds s)\<rparr>,
                (spread_feed f p)\<lparr>feed_id := i, feed_updated_at := now\<rparr>)"
  using assms by (simp add: updateFeed_def getFeed_def Let_def)

lemma updateConnection_Some:
  assumes "getConnection s i = Some c"
  shows "updateConnection now i p s =
           Inr (s\<lparr>connections := AList.update i ((spread_connection c p)\<lparr>conn_id := i, conn_updated_at := now\<rparr>) (connections s)\<rparr>,
                (spread_connection c p)\<lparr>conn_id := i, conn_updated_at := now\<rparr>)"
  using assms by (simp add: updateConnection_def getConnection_def Let_def)

lemma spread_feed_active_only:
  "spread_feed f (no_feed_patch\<lparr>fp_active := Some b\<rparr>) = f\<lparr>feed_active := Some b\<rparr>"
  by (simp add: spread_feed_def no_feed_patch_def spread_def)

text \<open>
  C9. For a feed of the requesting user in a reachable store, the toggle route answers
  200 with the feed it stored: the stored feed with \<open>active\<close> negated (true becomes
  false, false becomes true) and \<open>updated_at\<close> set to the current time. Every other
  field, among them \<open>contents\<close>, \<open>num_sent\<close>, \<open>full_text\<close>, \<open>separator\<close> and
  \<open>completed_contents\<close>, is as before, and so are all other feeds, the connections,
  the users and the counters.
\<close>

theorem toggle_feed_flips_active_only:
  assumes "reachable s" and "getFeed s fid = Some f" and "feed_user_id f = uid"
  shows "\<exists>s' f'.
      toggle_feed (Some uid) now fid s = Inr (s', Response 200 (FeedJson f'))
    \<and> getFeed s' fid = Some f'
    \<and> f' = f\<lparr>feed_active := Some (js_not (feed_active f)), feed_updated_at := now\<rparr>
    \<and> (feed_active f = Some True \<longrightarrow> feed_active f' = Some False)
    \<and> (feed_active f = Some False \<longrightarrow> feed_active f' = Some True)
    \<and> feed_updated_at f' = now
    \<and> feed_id f' = feed_id f \<and> feed_name f' = feed_name f
    \<and> feed_description f' = feed_description f \<and> feed_full_text f' = feed_full_text f
    \<and> feed_contents f' = feed_contents f
    \<and> feed_completed_contents f' = feed_completed_contents f
    \<and> feed_separator f' = feed_separator f \<and> feed_created_at f' = feed_created_at f
    \<and> feed_user_id f' = feed_user_id f \<and> feed_connection_id f' = feed_connection_id f
    \<and> feed_num_sent f' = feed_num_sent f \<and> feed_frequency f' = feed_frequency f
    \<and> (\<forall>k. k \<noteq> fid \<longrightarrow> getFeed s' k = getFeed s k)
    \<and> connections s' = connections s \<and> users s' = users s
    \<and> userId s' = userId s \<and> connectionId s' = connectionId s \<and> feedId s' = feedId s"
proof -
  from assms(1) have inv: "store_inv s" by (rule reachable_store_inv)
  from inv assms(2) have id: "feed_id f = fid" by (rule store_inv_feed_id)
  then have same: "f\<lparr>feed_id := fid\<rparr> = f" by simp
  show ?thesis
    using assms(2,3)
    by (simp add: toggle_feed_def updateFeed_Some[OF assms(2)] spread_feed_active_only
          getFeed_def update_conv' id js_not_def)
qed

theorem toggle_feed_flips_active_only_witness:
  "reachable sample_store
   \<and> map_option feed_active (getFeed sample_store 2) = Some (Some True)
   \<and> map_option feed_user_id (getFeed sample_store 2) = Some 1
   \<and> (\<exists>s' f'. toggle_feed (Some 1) 50 2 sample_store = Inr (s', Response 200 (FeedJson f'))
         \<and> feed_active f' = Some False \<and> feed_updated_at f' = 50
         \<and> feed_contents f' = [lit ''a'', lit ''b''] \<and> feed_num_sent f' = 0)"
proof -
  have a: "map_option feed_active (getFeed sample_store 2) = Some (Some True)"
    and u: "map_option feed_user_id (getFeed sample_store 2) = Some 1"
    and c: "map_option feed_contents (getFeed sample_store 2) = Some [lit ''a'', lit ''b'']"
    and n: "map_option feed_num_sent (getFeed sample_store 2) = Some 0"
    by code_simp+
  then obtain f where f: "getFeed sample_store 2 = Some f" "feed_active f = Some True"
    "feed_user_id f = 1" "feed_contents f = [lit ''a'', lit ''b'']" "feed_num_sent f = 0"
    by auto
  from toggle_feed_flips_active_only[OF reachable_sample_store f(1) f(3), of 50] f a u
  show ?thesis using reachable_sample_store by auto
qed

text \<open>
  C10 (amended). In a reachable store, an update of an existing feed or connection keeps
  the stored id, whatever id the patch holds, and sets \<open>updated_at\<close> to the current
  time, whatever \<open>updated_at\<close> the patch holds. Every other field, \<open>user_id\<close> and
  \<open>created_at\<close> among them, takes the value of the patch when the patch supplies one
  and keeps its stored value otherwise.
\<close>

theorem update_keeps_id_and_stamps_time:
  assumes "reachable s"
  shows "(\<forall>f. getFeed s i = Some f \<longrightarrow>
            (\<exists>s' f'. updateFeed now i p s = Inr (s', f') \<and> getFeed s' i = Some f'
               \<and> feed_id f' = feed_id f
               \<and> feed_updated_at f' = now
               \<and> feed_name f' = spread (feed_name f) (fp_name p)
               \<and> feed_description f' = spread (feed_description f) (fp_description p)
               \<and> feed_full_text f' = spread (feed_full_text f) (fp_full_text p)
               \<and> feed_contents f' = spread (feed_contents f) (fp_contents p)
               \<and> feed_completed_contents f'
                    = spread (feed_completed_contents f) (fp_completed_contents p)
               \<and> feed_separator f' = spread (feed_separator f) (fp_separator p)
               \<and> feed_created_at f' = spread (feed_created_at f) (fp_created_at p)
               \<and> feed_user_id f' = spread (feed_user_id f) (fp_user_id p)
               \<and> feed_connection_id f' = spread (feed_connection_id f) (fp_connection_id p)
               \<and> feed_num_sent f' = spread (feed_num_sent f) (fp_num_sent p)
               \<and> feed_frequency f' = spread (feed_frequency f) (fp_frequency p)
               \<and> feed_active f'
                    = (case fp_active p of None \<Rightarrow> feed_active f | Some b \<Rightarrow> Some b)))
    \<and> (\<forall>c. getConnection s j = Some c \<longrightarrow>
            (\<exists>s' c'. updateConnection now j q s = Inr (s', c') \<and> getConnection s' j = Some c'
               \<and> conn_id c' = conn_id c
               \<and> conn_updated_at c' = now
               \<and> conn_name c' = spread (conn_name c) (cp_name q)
               \<and> conn_url c' = spread (conn_url c) (cp_url q)
               \<and> conn_token c' = spread (conn_token c) (cp_token q)
               \<and> conn_status c' = spread (conn_status c) (cp_status q)
               \<and> conn_user_id c' = spread (conn_user_id c) (cp_user_id q)
               \<and> conn_icon c' = spread (conn_icon c) (cp_icon q)
               \<and> conn_created_at c' = spread (conn_created_at c) (cp_created_at q)
               \<and> conn_projects c' = spread (conn_projects c) (cp_projects q)))"
proof -
  from assms have inv: "store_inv s" by (rule reachable_store_inv)
  have "\<exists>s' f'. updateFeed now i p s = Inr (s', f') \<and> getFeed s' i = Some f'
               \<and> feed_id f' = feed_id f
               \<and> feed_updated_at f' = now
               \<and> feed_name f' = spread (feed_name f) (fp_name p)
               \<and> feed_description f' = spread (feed_description f) (fp_description p)
               \<and> feed_full_text f' = spread (feed_full_text f) (fp_full_text p)
               \<and> feed_contents f' = spread (feed_contents f) (fp_contents p)
               \<and> feed_completed_contents f'
                    = spread (feed_completed_contents f) (fp_completed_contents p)
               \<and> feed_separator f' = spread (feed_separator f) (fp_separator p)
               \<and> feed_created_at f' = spread (feed_created_at f) (fp_created_at p)
               \<and> feed_user_id f' = spread (feed_user_id f) (fp_user_id p)
               \<and> feed_connection_id f' = spread (feed_connection_id f) (fp_connection_id p)
               \<and> feed_num_sent f' = spread (feed_num_sent f) (fp_num_sent p)
               \<and> feed_frequency f' = spread (feed_frequency f) (fp_frequency p)
               \<and> feed_active f'
                    = (case fp_active p of None \<Rightarrow> feed_active f | Some b \<Rightarrow> Some b)"
    if f: "getFeed s i = Some f" for f
    using store_inv_feed_id[OF inv f]
    by (simp add: updateFeed_Some[OF f] getFeed_def update_conv' spread_feed_def)
  moreover have "\<exists>s' c'. updateConnection now j q s = Inr (s', c') \<and> getConnection s' j = Some c'
               \<and> conn_id c' = conn_id c
               \<and> conn_updated_at c' = now
               \<and> conn_name c' = spread (conn_name c) (cp_name q)
               \<and> conn_url c' = spread (conn_url c) (cp_url q)
               \<and> conn_token c' = spread (conn_token c) (cp_token q)
               \<and> conn_status c' = spread (conn_status c) (cp_status q)
               \<and> conn_user_id c' = spread (conn_user_id c) (cp_user_id q)
               \<and> conn_icon c' = spread (conn_icon c) (cp_icon q)
               \<and> conn_created_at c' = spread (conn_created_at c) (cp_created_at q)
               \<and> conn_projects c' = spread (conn_projects c) (cp_projects q)"
    if c: "getConnection s j = Some c" for c
    using store_inv_conn_id[OF inv c]
    by (simp add: updateConnection_Some[OF c] getConnection_def update_conv' spread_connection_def)
  ultimately show ?thesis by blast
qed

theorem update_overwrites_all_but_id_counterexample:
  "fp_updated_at sample_feed_patch = Some 5
   \<and> (\<exists>s' f'. updateFeed 60 2 sample_feed_patch sample_store = Inr (s', f')
         \<and> getFeed s' 2 = Some f' \<and> feed_updated_at f' \<noteq> 5 \<and> feed_updated_at f' = 60)
   \<and> cp_updated_at sample_connection_patch = Some 5
   \<and> (\<exists>s' c'. updateConnection 60 1 sample_connection_patch sample_store = Inr (s', c')
         \<and> getConnection s' 1 = Some c' \<and> conn_updated_at c' \<noteq> 5
         \<and> conn_updated_at c' = 60)"
proof -
  have "getFeed sample_store 2 \<noteq> None" "getConnection sample_store 1 \<noteq> None"
    by code_simp+
  then obtain f c where "getFeed sample_store 2 = Some f" "getConnection sample_store 1 = Some c"
    by auto
  then show ?thesis
    by (simp add: updateFeed_Some updateConnection_Some sample_feed_patch_def
          sample_connection_patch_def getFeed_def getConnection_def update_conv')
qed

theorem update_keeps_id_and_stamps_time_witness:
  "reachable sample_store
   \<and> fp_id sample_feed_patch = Some 77 \<and> cp_id sample_connection_patch = Some 77
   \<and> (\<exists>s' f'. updateFeed 60 2 sample_feed_patch sample_store = Inr (s', f')
         \<and> feed_id f' = 2 \<and> feed_updated_at f' = 60 \<and> feed_user_id f' = 8
         \<and> feed_created_at f' = 3)
   \<and> (\<exists>s' c'. updateConnection 60 1 sample_connection_patch sample_store = Inr (s', c')
         \<and> conn_id c' = 1 \<and> conn_updated_at c' = 60 \<and> conn_user_id c' = 8
         \<and> conn_created_at c' = 3)"
proof -
  have "map_option feed_id (getFeed sample_store 2) = Some 2"
    "map_option conn_id (getConnection sample_store 1) = Some 1"
    by code_simp+
  then obtain f c where f: "getFeed sample_store 2 = Some f" "feed_id f = 2"
    and c: "getConnection sample_store 1 = Some c" "conn_id c = 1"
    by auto
  have p: "fp_id sample_feed_patch = Some 77" "fp_user_id sample_feed_patch = Some 8"
    "fp_created_at sample_feed_patch = Some 3"
    "cp_id sample_connection_patch = Some 77" "cp_user_id sample_connection_patch = Some 8"
    "cp_created_at sample_connection_patch = Some 3"
    by (simp_all add: sample_feed_patch_def sample_connection_patch_def no_feed_patch_def
          no_connection_patch_def)
  from update_keeps_id_and_stamps_time[OF reachable_sample_store,
      of 2 60 sample_feed_patch 1 sample_connection_patch] f c
  show ?thesis using reachable_sample_store p by (auto simp: spread_def)
qed

section \<open>Updating a feed through the route\<close>

lemma patch_feed_owner:
  assumes "getFeed s fid = Some f" and "feed_user_id f = uid"
  shows "patch_feed (Some uid) now fid p s =
     (case updateFeed now fid
             (if truthy (fp_full_text p) \<and> truthy (fp_separator p)
              then p\<lparr>fp_contents := Some (server_split (the (fp_full_text p)) (the (fp_separator p)))\<rparr>
              else p) s of
        Inl e \<Rightarrow> Inl e
      | Inr (s', feed) \<Rightarrow> Inr (s', Response 200 (FeedJson feed)))"
  using assms by (simp add: patch_feed_def Let_def)

text \<open>
  C2 (amended). For a feed of the requesting user, the update route stores and returns
  the merged feed, a supplied \<open>full_text\<close> or \<open>separator\<close> merged in. When the patch
  holds both \<open>full_text\<close> and \<open>separator\<close> and neither is the empty string,
  \<open>contents\<close> is recomputed before the merge: it is the new text split on the new
  separator, trimmed, empties dropped. When the patch lacks \<open>full_text\<close> or lacks
  \<open>separator\<close>, nothing is recomputed: \<open>contents\<close> is the patch's own \<open>contents\<close>
  if the patch holds one, and the stored \<open>contents\<close> otherwise.
\<close>

theorem patch_feed_recomputes_contents:
  assumes "getFeed s fid = Some f" and "feed_user_id f = uid"
  shows "\<exists>s' f'.
      patch_feed (Some uid) now fid p s = Inr (s', Response 200 (FeedJson f'))
    \<and> getFeed s' fid = Some f'
    \<and> feed_full_text f' = spread (feed_full_text f) (fp_full_text p)
    \<and> feed_separator f' = spread (feed_separator f) (fp_separator p)
    \<and> (\<forall>t sep. fp_full_text p = Some t \<and> fp_separator p = Some sep \<and> t \<noteq> [] \<and> sep \<noteq> []
          \<longrightarrow> feed_contents f' = server_split t sep)
    \<and> (fp_full_text p = None \<or> fp_separator p = None
          \<longrightarrow> feed_contents f' = spread (feed_contents f) (fp_contents p))"
  by (auto simp: patch_feed_owner[OF assms] updateFeed_Some[OF assms(1)] getFeed_def
        update_conv' spread_feed_def truthy_def spread_def split: option.splits)

lemma sample_feed_2:
  "\<exists>f. getFeed sample_store 2 = Some f \<and> feed_user_id f = 1
       \<and> feed_contents f = [lit ''a'', lit ''b'']"
proof -
  have "map_option feed_user_id (getFeed sample_store 2) = Some 1"
    "map_option feed_contents (getFeed sample_store 2) = Some [lit ''a'', lit ''b'']"
    by code_simp+
  then show ?thesis by auto
qed

theorem patch_feed_recomputes_contents_witness:
  "map_option feed_user_id (getFeed sample_store 2) = Some 1
   \<and> map_option feed_contents (getFeed sample_store 2) = Some [lit ''a'', lit ''b'']
   \<and> (\<exists>s' f'. patch_feed (Some 1) 70 2 resplit_patch sample_store
                  = Inr (s', Response 200 (FeedJson f'))
         \<and> getFeed s' 2 = Some f'
         \<and> feed_full_text f' = lit ''p; q'' \<and> feed_separator f' = lit '';''
         \<and> feed_contents f' = [lit ''p'', lit ''q''])
   \<and> (\<exists>s' f'. patch_feed (Some 1) 70 2 text_patch sample_store
                  = Inr (s', Response 200 (FeedJson f'))
         \<and> getFeed s' 2 = Some f'
         \<and> feed_full_text f' = lit ''c,d'' \<and> feed_separator f' = lit '',''
         \<and> feed_contents f' = [lit ''a'', lit ''b''])"
proof -
  obtain f where f: "getFeed sample_store 2 = Some f" "feed_user_id f = 1"
    "feed_contents f = [lit ''a'', lit ''b'']"
    using sample_feed_2 by blast
  have sep: "map_option feed_separator (getFeed sample_store 2) = Some (lit '','')"
    by code_simp
  have sp: "server_split (lit ''p; q'') (lit '';'') = [lit ''p'', lit ''q'']"
    by (simp add: server_split_def split_def trim_def is_ws_def lit_def)
  have p: "fp_full_text resplit_patch = Some (lit ''p; q'')"
    "fp_separator resplit_patch = Some (lit '';'')"
    "fp_full_text text_patch = Some (lit ''c,d'')" "fp_separator text_patch = None"
    "fp_contents text_patch = None"
    by (simp_all add: resplit_patch_def text_patch_def no_feed_patch_def)
  have ne: "lit ''p; q'' \<noteq> []" "lit '';'' \<noteq> []" by (simp_all add: lit_def)
  from patch_feed_recomputes_contents[OF f(1,2), of 70 resplit_patch]
    patch_feed_recomputes_contents[OF f(1,2), of 70 text_patch] p ne sp f sep
  show ?thesis by (auto simp: spread_def)
qed

theorem patch_feed_recomputes_contents_counterexample:
  "fp_full_text stale_patch = Some [] \<and> fp_separator stale_patch = Some (lit '','')
   \<and> server_split [] (lit '','') = []
   \<and> (\<exists>s' f'. patch_feed (Some 1) 70 2 stale_patch sample_store
                  = Inr (s', Response 200 (FeedJson f'))
         \<and> getFeed s' 2 = Some f' \<and> feed_contents f' = [lit ''a'', lit ''b''])
   \<and> fp_full_text contents_patch = Some (lit ''c,d'') \<and> fp_separator contents_patch = None
   \<and> map_option feed_contents (getFeed sample_store 2) = Some [lit ''a'', lit ''b'']
   \<and> (\<exists>s' f'. patch_feed (Some 1) 70 2 contents_patch sample_store
                  = Inr (s', Response 200 (FeedJson f'))
         \<and> getFeed s' 2 = Some f' \<and> feed_contents f' = [lit ''z''])"
proof -
  obtain f where f: "getFeed sample_store 2 = Some f" "feed_user_id f = 1"
    "feed_contents f = [lit ''a'', lit ''b'']"
    using sample_feed_2 by blast
  have sp: "server_split [] (lit '','') = []"
    by (simp add: server_split_def split_def trim_def lit_def)
  show ?thesis
    using f sp
    by (simp add: patch_feed_owner[OF f(1,2)] updateFeed_Some[OF f(1)] stale_patch_def
          contents_patch_def no_feed_patch_def truthy_def getFeed_def update_conv'
          spread_feed_def spread_def)
qed

section \<open>Not found\<close>

text \<open>
  C4. For an authenticated user, each route that reads, updates or deletes one
  connection or one feed answers an absent id and an id whose entity belongs to another
  user alike: status 404 with the same message for the kind of entity, and the store
  exactly as it was, the check coming before any mutation.
\<close>

theorem not_found_for_absent_and_foreign:
  assumes "getConnection s cid = None
           \<or> (\<exists>c. getConnection s cid = Some c \<and> conn_user_id c \<noteq> uid)"
    and "getFeed s fid = None \<or> (\<exists>f. getFeed s fid = Some f \<and> feed_user_id f \<noteq> uid)"
  shows "get_connection (Some uid) cid s
           = Inr (s, Response 404 (Message ''Connection not found''))
    \<and> patch_connection (Some uid) now cid q s
           = Inr (s, Response 404 (Message ''Connection not found''))
    \<and> delete_connection (Some uid) cid s
           = Inr (s, Response 404 (Message ''Connection not found''))
    \<and> get_feed (Some uid) fid s = Inr (s, Response 404 (Message ''Feed not found''))
    \<and> patch_feed (Some uid) now fid p s = Inr (s, Response 404 (Message ''Feed not found''))
    \<and> toggle_feed (Some uid) now fid s = Inr (s, Response 404 (Message ''Feed not found''))
    \<and> delete_feed (Some uid) fid s = Inr (s, Response 404 (Message ''Feed not found''))"
proof -
  have "get_connection (Some uid) cid s
           = Inr (s, Response 404 (Message ''Connection not found''))"
    "patch_connection (Some uid) now cid q s
           = Inr (s, Response 404 (Message ''Connection not found''))"
    "delete_connection (Some uid) cid s
           = Inr (s, Response 404 (Message ''Connection not found''))"
    using assms(1)
    by (auto simp: get_connection_def patch_connection_def delete_connection_def)
  moreover have "get_feed (Some uid) fid s = Inr (s, Response 404 (Message ''Feed not found''))"
    "patch_feed (Some uid) now fid p s = Inr (s, Response 404 (Message ''Feed not found''))"
    "toggle_feed (Some uid) now fid s = Inr (s, Response 404 (Message ''Feed not found''))"
    "delete_feed (Some uid) fid s = Inr (s, Response 404 (Message ''Feed not found''))"
    using assms(2)
    by (auto simp: get_feed_def patch_feed_def toggle_feed_def delete_feed_def)
  ultimately show ?thesis by simp
qed

theorem not_found_for_absent_and_foreign_witness:
  "getConnection sample_store 9 = None \<and> getFeed sample_store 9 = None
   \<and> map_option conn_user_id (getConnection sample_store 1) = Some 1
   \<and> map_option feed_user_id (getFeed sample_store 2) = Some 1
   \<and> delete_connection (Some 2) 1 sample_store
        = Inr (sample_store, Response 404 (Message ''Connection not found''))
   \<and> delete_connection (Some 2) 9 sample_store
        = Inr (sample_store, Response 404 (Message ''Connection not found''))
   \<and> patch_feed (Some 2) 70 2 resplit_patch sample_store
        = Inr (sample_store, Response 404 (Message ''Feed not found''))
   \<and> patch_feed (Some 2) 70 9 resplit_patch sample_store
        = Inr (sample_store, Response 404 (Message ''Feed not found''))"
proof -
  have absent: "getConnection sample_store 9 = None" "getFeed sample_store 9 = None"
    by code_simp+
  have owner: "map_option conn_user_id (getConnection sample_store 1) = Some 1"
    "map_option feed_user_id (getFeed sample_store 2) = Some 1"
    by code_simp+
  then have foreign:
    "\<exists>c. getConnection sample_store 1 = Some c \<and> conn_user_id c \<noteq> 2"
    "\<exists>f. getFeed sample_store 2 = Some f \<and> feed_user_id f \<noteq> 2"
    by auto
  from not_found_for_absent_and_foreign[of sample_store 1 2 9 70 no_connection_patch resplit_patch]
    not_found_for_absent_and_foreign[of sample_store 9 2 2 70 no_connection_patch resplit_patch]
    absent owner foreign
  show ?thesis by simp
qed

section \<open>Properties of the arithmetic\<close>

subsection \<open>The binary exponent\<close>

lemma pow2_nat: "0 \<le> k \<Longrightarrow> (2::rat) ^ nat k = 2 powi k"
  by (simp add: power_int_def)

lemma ilog2_bounds:
  assumes "0 < x"
  shows "2 powi (ilog2 x) \<le> x" and "x < 2 powi (ilog2 x + 1)"
proof -
  obtain p q where pq: "quotient_of x = (p, q)" by force
  then have q: "0 < q" and x: "x = of_int p / of_int q"
    by (rule quotient_of_denom_pos, rule quotient_of_div)
  from assms q x have p: "0 < p" by (simp add: zero_less_divide_iff)
  define d where "d = bitlen p - bitlen q"
  from bitlen_bounds[OF p] have bp: "2 ^ nat (bitlen p - 1) \<le> p" "p < 2 ^ nat (bitlen p)"
    by auto
  from bitlen_bounds[OF q] have bq: "2 ^ nat (bitlen q - 1) \<le> q" "q < 2 ^ nat (bitlen q)"
    by auto
  have pos: "1 \<le> bitlen p" "1 \<le> bitlen q"
    using p q by (auto simp: bitlen_alt_def)
  have p_lo: "(2::rat) powi (bitlen p - 1) \<le> of_int p"
  proof -
    have "(of_int (2 ^ nat (bitlen p - 1)) :: rat) \<le> of_int p" using bp(1) by (simp only: of_int_le_iff)
    then show ?thesis using pos by (simp add: pow2_nat)
  qed
  have p_hi: "(of_int p :: rat) < 2 powi (bitlen p)"
  proof -
    have "(of_int p :: rat) < of_int (2 ^ nat (bitlen p))" using bp(2) by (simp only: of_int_less_iff)
    then show ?thesis using pos by (simp add: pow2_nat)
  qed
  have q_lo: "(2::rat) powi (bitlen q - 1) \<le> of_int q"
  proof -
    have "(of_int (2 ^ nat (bitlen q - 1)) :: rat) \<le> of_int q" using bq(1) by (simp only: of_int_le_iff)
    then show ?thesis using pos by (simp add: pow2_nat)
  qed
  have q_hi: "(of_int q :: rat) < 2 powi (bitlen q)"
  proof -
    have "(of_int q :: rat) < of_int (2 ^ nat (bitlen q))" using bq(2) by (simp only: of_int_less_iff)
    then show ?thesis using pos by (simp add: pow2_nat)
  qed
  have pw: "(0::rat) < 2 powi k" for k by simp
  have qpos: "(0::rat) < of_int q" and ppos: "(0::rat) < of_int p" using p q by simp_all
  have upper: "x < 2 powi (d + 1)"
  proof -
    have "x < 2 powi (bitlen p) / of_int q"
      unfolding x using p_hi qpos by (simp add: divide_strict_right_mono)
    also have "\<dots> \<le> 2 powi (bitlen p) / 2 powi (bitlen q - 1)"
      using q_lo qpos pw[of "bitlen q - 1"] by (intro divide_left_mono mult_pos_pos less_imp_le[OF pw])
    also have "\<dots> = 2 powi (d + 1)"
      by (simp add: d_def flip: power_int_diff) (simp add: algebra_simps)
    finally show ?thesis .
  qed
  have lower: "2 powi (d - 1) \<le> x"
  proof -
    have "(2::rat) powi (d - 1) = 2 powi (bitlen p - 1) / 2 powi (bitlen q)"
      by (simp add: d_def flip: power_int_diff) (simp add: algebra_simps)
    also have "\<dots> \<le> of_int p / 2 powi (bitlen q)"
      using p_lo by (simp add: divide_right_mono)
    also have "\<dots> \<le> of_int p / of_int q"
      using q_hi ppos qpos pw[of "bitlen q"] by (intro divide_left_mono mult_pos_pos less_imp_le)
    finally show ?thesis by (simp add: x)
  qed
  have i: "ilog2 x = (if 2 powi d \<le> x then d else d - 1)"
    by (simp add: ilog2_def pq d_def Let_def)
  show "2 powi (ilog2 x) \<le> x" using lower by (simp add: i)
  show "x < 2 powi (ilog2 x + 1)" using upper by (auto simp: i not_le)
qed

lemma ilog2_unique:
  assumes "2 powi e \<le> x" and "x < 2 powi (e + 1)"
  shows "ilog2 x = e"
proof -
  have "(0::rat) < 2 powi e" by simp
  then have pos: "0 < x" using assms(1) by (rule less_le_trans)
  note b = ilog2_bounds[OF pos]
  have "ilog2 x < e + 1"
  proof (rule ccontr)
    assume "\<not> ilog2 x < e + 1"
    then have "(2::rat) powi (e + 1) \<le> 2 powi (ilog2 x)" by (intro power_int_increasing) simp_all
    with b(1) assms(2) show False by simp
  qed
  moreover have "e < ilog2 x + 1"
  proof (rule ccontr)
    assume "\<not> e < ilog2 x + 1"
    then have "(2::rat) powi (ilog2 x + 1) \<le> 2 powi e" by (intro power_int_increasing) simp_all
    with b(2) assms(1) show False by simp
  qed
  ultimately show ?thesis by simp
qed

lemma ilog2_mono:
  assumes "0 < x" and "x \<le> y"
  shows "ilog2 x \<le> ilog2 y"
proof (rule ccontr)
  assume "\<not> ilog2 x \<le> ilog2 y"
  then have "(2::rat) powi (ilog2 y + 1) \<le> 2 powi (ilog2 x)"
    by (intro power_int_increasing) simp_all
  moreover from assms have "0 < y" by simp
  ultimately show False
    using ilog2_bounds(1)[OF assms(1)] ilog2_bounds(2)[OF \<open>0 < y\<close>] assms(2) by simp
qed

subsection \<open>Rounding to the nearest integer, ties to even\<close>

lemma round_even_cases:
  "round_even x = \<lfloor>x\<rfloor> \<or> round_even x = \<lfloor>x\<rfloor> + 1"
  by (simp add: round_even_def Let_def)

lemma round_even_error: "\<bar>of_int (round_even x) - x\<bar> \<le> 1/2"
proof -
  have "of_int \<lfloor>x\<rfloor> \<le> x" "x < of_int \<lfloor>x\<rfloor> + 1" by linarith+
  then show ?thesis by (auto simp: round_even_def Let_def abs_le_iff)
qed

lemma round_even_of_int [simp]: "round_even (of_int n) = n"
  by (simp add: round_even_def)

lemma round_even_mono:
  assumes "x \<le> y"
  shows "round_even x \<le> round_even y"
proof (cases "\<lfloor>x\<rfloor> = \<lfloor>y\<rfloor>")
  case True
  with assms show ?thesis by (auto simp: round_even_def Let_def)
next
  case False
  with assms have "\<lfloor>x\<rfloor> + 1 \<le> \<lfloor>y\<rfloor>" using floor_mono[OF assms] by linarith
  moreover have "round_even x \<le> \<lfloor>x\<rfloor> + 1" using round_even_cases[of x] by linarith
  moreover have "\<lfloor>y\<rfloor> \<le> round_even y" using round_even_cases[of y] by linarith
  ultimately show ?thesis by linarith
qed

lemma round_even_minus: "round_even (- x) = - round_even x"
proof (cases "x = of_int \<lfloor>x\<rfloor>")
  case True
  then obtain n where "x = of_int n" ..
  then have "- x = of_int (- n)" by simp
  with \<open>x = of_int n\<close> show ?thesis by (simp only: round_even_of_int)
next
  case False
  then have lt: "of_int \<lfloor>x\<rfloor> < x" by linarith
  have "x < of_int \<lfloor>x\<rfloor> + 1" by linarith
  with lt have fl: "\<lfloor>- x\<rfloor> = - \<lfloor>x\<rfloor> - 1" by (intro floor_unique) simp_all
  show ?thesis
    using lt by (auto simp: round_even_def Let_def fl)
qed

subsection \<open>Rounding to binary64\<close>

lemma fl_0 [simp]: "fl 0 = 0"
  by (simp add: fl_def)

lemma fl_minus: "fl (- x) = - fl x"
  by (simp add: fl_def Let_def round_even_minus)

lemma fl_pos_bounds:
  assumes "0 < x"
  shows "2 powi (ilog2 x) \<le> fl x" and "fl x \<le> 2 powi (ilog2 x + 1)"
    and "\<bar>fl x - x\<bar> \<le> 2 powi (ilog2 x - 53)"
proof -
  define e where "e = ilog2 x"
  define u :: rat where "u = 2 powi (e - 52)"
  have u: "0 < u" by (simp add: u_def)
  have f: "fl x = of_int (round_even (x / u)) * u"
    using assms by (simp add: fl_def Let_def u_def e_def)
  have lo: "2 powi e \<le> x" and hi: "x < 2 powi (e + 1)"
    using ilog2_bounds[OF assms] by (simp_all add: e_def)
  have e52: "(2::rat) powi e = 2 ^ 52 * u" 
    by (simp add: u_def power_int_diff)
  have e53: "(2::rat) powi (e + 1) = 2 ^ 53 * u"
    by (simp add: u_def power_int_diff power_int_add)
  have "(2::rat) ^ 52 \<le> x / u" using lo u by (simp add: e52 pos_le_divide_eq)
  then have "round_even (of_int (2 ^ 52)) \<le> round_even (x / u)"
    by (intro round_even_mono) simp
  then have a: "(2::int) ^ 52 \<le> round_even (x / u)" by (simp only: round_even_of_int)
  have "x / u \<le> 2 ^ 53" using hi u by (simp add: e53 pos_divide_le_eq)
  then have "round_even (x / u) \<le> round_even (of_int (2 ^ 53))"
    by (intro round_even_mono) simp
  then have b: "round_even (x / u) \<le> (2::int) ^ 53" by (simp only: round_even_of_int)
  from a have "(of_int (2 ^ 52) :: rat) \<le> of_int (round_even (x / u))"
    by (simp only: of_int_le_iff)
  then have "2 ^ 52 * u \<le> of_int (round_even (x / u)) * u"
    using u by (intro mult_right_mono) simp_all
  then show "2 powi (ilog2 x) \<le> fl x" by (simp add: f e52 flip: e_def)
  from b have "(of_int (round_even (x / u)) :: rat) \<le> of_int (2 ^ 53)"
    by (simp only: of_int_le_iff)
  then have "of_int (round_even (x / u)) * u \<le> 2 ^ 53 * u"
    using u by (intro mult_right_mono) simp_all
  then show "fl x \<le> 2 powi (ilog2 x + 1)" by (simp add: f e53 flip: e_def)
  have "\<bar>fl x - x\<bar> = \<bar>of_int (round_even (x / u)) - x / u\<bar> * u"
    using u by (simp add: f abs_mult_pos' algebra_simps flip: abs_mult_pos)
  also have "\<dots> \<le> 1/2 * u"
    using u round_even_error[of "x / u"] by (intro mult_right_mono) simp_all
  also have "\<dots> = 2 powi (e - 53)"
    by (simp add: u_def power_int_diff)
  finally show "\<bar>fl x - x\<bar> \<le> 2 powi (ilog2 x - 53)" by (simp add: e_def)
qed

lemma fl_pos: "0 < x \<Longrightarrow> 0 < fl x"
proof -
  assume "0 < x"
  have "(0::rat) < 2 powi (ilog2 x)" by simp
  then show ?thesis using fl_pos_bounds(1)[OF \<open>0 < x\<close>] by (rule less_le_trans)
qed

lemma fl_mono_pos:
  assumes "0 < x" and "x \<le> y"
  shows "fl x \<le> fl y"
proof (cases "ilog2 x = ilog2 y")
  case True
  from assms have y: "0 < y" by simp
  define u :: rat where "u = 2 powi (ilog2 y - 52)"
  have u: "0 < u" by (simp add: u_def)
  have "x / u \<le> y / u" using assms(2) u by (simp add: divide_right_mono)
  then have "round_even (x / u) \<le> round_even (y / u)" by (rule round_even_mono)
  then have "(of_int (round_even (x / u)) :: rat) \<le> of_int (round_even (y / u))"
    by (simp only: of_int_le_iff)
  then have "of_int (round_even (x / u)) * u \<le> of_int (round_even (y / u)) * u"
    using u by (intro mult_right_mono) simp_all
  then show ?thesis using assms(1) y True by (simp add: fl_def Let_def u_def)
next
  case False
  from assms have y: "0 < y" by simp
  from False ilog2_mono[OF assms] have "ilog2 x + 1 \<le> ilog2 y" by simp
  then have "(2::rat) powi (ilog2 x + 1) \<le> 2 powi (ilog2 y)"
    by (intro power_int_increasing) simp_all
  with fl_pos_bounds(2)[OF assms(1)] fl_pos_bounds(1)[OF y] show ?thesis by linarith
qed

lemma fl_mono:
  assumes "x \<le> y"
  shows "fl x \<le> fl y"
proof -
  consider "0 < x" | "x \<le> 0" "0 \<le> y" | "y < 0" by linarith
  then show ?thesis
  proof cases
    case 1
    then show ?thesis using assms by (rule fl_mono_pos)
  next
    case 2
    have "fl x \<le> 0"
    proof (cases "x = 0")
      case False
      with 2 have "0 < - x" by simp
      from fl_pos[OF this] show ?thesis by (simp add: fl_minus)
    qed simp
    moreover have "0 \<le> fl y"
    proof (cases "y = 0")
      case False
      with 2 have "0 < y" by simp
      from fl_pos[OF this] show ?thesis by simp
    qed simp
    ultimately show ?thesis by simp
  next
    case 3
    with assms have "0 < - y" "- y \<le> - x" by simp_all
    from fl_mono_pos[OF this] show ?thesis by (simp add: fl_minus)
  qed
qed

lemma fl_error: "\<bar>fl x - x\<bar> \<le> \<bar>x\<bar> / 2 ^ 53"
proof -
  have pos: "\<bar>fl x - x\<bar> \<le> x / 2 ^ 53" if "0 < x" for x
  proof -
    have "(2::rat) powi (ilog2 x - 53) = 2 powi (ilog2 x) / 2 ^ 53"
      by (simp add: power_int_diff)
    also have "\<dots> \<le> x / 2 ^ 53"
      using ilog2_bounds(1)[OF that] by (simp add: divide_right_mono)
    finally show ?thesis using fl_pos_bounds(3)[OF that] by simp
  qed
  consider "0 < x" | "x = 0" | "0 < - x" by linarith
  then show ?thesis
  proof cases
    case 1
    with pos[OF 1] show ?thesis by simp
  next
    case 2
    then show ?thesis by simp
  next
    case 3
    have "\<bar>fl x - x\<bar> = \<bar>fl (- x) - (- x)\<bar>" by (simp add: fl_minus)
    with pos[OF 3] 3 show ?thesis by simp
  qed
qed

lemma fl_1 [simp]: "fl 1 = 1"
  by code_simp

lemma fl_100 [simp]: "fl 100 = 100"
  by code_simp

lemma Math_round_mono: "x \<le> y \<Longrightarrow> Math_round x \<le> Math_round y"
  by (simp add: Math_round_def floor_mono)

lemma Math_round_of_int [simp]: "Math_round (of_int n) = n"
  by (simp add: Math_round_def) linarith

subsection \<open>The progress bar\<close>

lemma completionRate_rate:
  "completionRate f =
     (if length (feed_contents f) > 0 then rate (feed_num_sent f) (length (feed_contents f))
      else 0)"
  by (simp add: completionRate_def rate_def)

lemma rate_mono:
  assumes "n \<le> m"
  shows "rate n len \<le> rate m len"
proof -
  have "(of_int n :: rat) / of_nat len \<le> of_int m / of_nat len"
    using assms by (simp add: divide_right_mono)
  then have "fl (of_int n / of_nat len) \<le> fl (of_int m / of_nat len)" by (rule fl_mono)
  then have "fl (of_int n / of_nat len) * 100 \<le> fl (of_int m / of_nat len) * 100" by simp
  then have "fl (fl (of_int n / of_nat len) * 100) \<le> fl (fl (of_int m / of_nat len) * 100)"
    by (rule fl_mono)
  then show ?thesis unfolding rate_def fmul_def fdiv_def by (rule Math_round_mono)
qed

lemma rate_0: "rate 0 len = 0"
  by (simp add: rate_def fmul_def fdiv_def Math_round_0)

lemma rate_full: "0 < len \<Longrightarrow> rate (int len) len = 100"
proof -
  assume "0 < len"
  then have "(of_int (int len) :: rat) / of_nat len = 1" by simp
  then have "rate (int len) len = Math_round (fl (fl 1 * 100))"
    by (simp only: rate_def fmul_def fdiv_def)
  also have "\<dots> = Math_round (of_int 100)" by simp
  also have "\<dots> = 100" by (simp only: Math_round_of_int)
  finally show ?thesis .
qed

lemma rate_error:
  assumes len: "0 < len" and n: "\<bar>n\<bar> < 2 ^ 43"
  shows "\<bar>fl (fl (of_int n / of_nat len) * 100) - of_int n / of_nat len * 100\<bar>
           < 1 / (2 * of_nat len)"
proof -
  define eps :: rat where "eps = 1 / 2 ^ 53"
  define a :: rat where "a = of_int n / of_nat len"
  define q1 where "q1 = fl a"
  define y where "y = fl (q1 * 100)"
  define A where "A = \<bar>a\<bar>"
  define B where "B = A * eps"
  have eps: "0 < eps" "eps \<le> 1" by (simp_all add: eps_def)
  have A0: "0 \<le> A" by (simp add: A_def)
  have B0: "0 \<le> B" using A0 eps by (simp add: B_def)
  have Beps: "B * eps \<le> B" using B0 eps by (simp add: mult_left_le)
  have e1: "\<bar>q1 - a\<bar> \<le> B"
    using fl_error[of a] by (simp add: q1_def A_def B_def eps_def)
  have e2: "\<bar>y - q1 * 100\<bar> \<le> \<bar>q1\<bar> * (100 * eps)"
    using fl_error[of "q1 * 100"] by (simp add: y_def eps_def abs_mult)
  have q1A: "\<bar>q1\<bar> \<le> A + B" using e1 unfolding A_def by linarith
  then have "\<bar>q1\<bar> * (100 * eps) \<le> (A + B) * (100 * eps)"
    using eps by (intro mult_right_mono) simp_all
  also have "\<dots> = 100 * (B + B * eps)" by (simp add: B_def algebra_simps)
  also have "\<dots> \<le> 200 * B" using Beps by simp
  finally have "\<bar>q1\<bar> * (100 * eps) \<le> 200 * B" .
  with e2 have e2': "\<bar>y - q1 * 100\<bar> \<le> 200 * B" by (rule order_trans)
  have e1': "\<bar>q1 * 100 - a * 100\<bar> \<le> 100 * B" using e1 by linarith
  have "\<bar>y - a * 100\<bar> \<le> \<bar>y - q1 * 100\<bar> + \<bar>q1 * 100 - a * 100\<bar>" by linarith
  with e1' e2' have total: "\<bar>y - a * 100\<bar> \<le> 300 * B" by linarith
  have lenpos: "(0::rat) < of_nat len" using len by simp
  have small: "of_int (600 * \<bar>n\<bar>) * eps < 1"
  proof -
    from n have "600 * \<bar>n\<bar> < 2 ^ 53" by simp
    then have "(of_int (600 * \<bar>n\<bar>) :: rat) < of_int (2 ^ 53)" by (simp only: of_int_less_iff)
    then have "(of_int (600 * \<bar>n\<bar>) :: rat) < 2 ^ 53" by simp
    then have "(of_int (600 * \<bar>n\<bar>) :: rat) / 2 ^ 53 < 1" by (simp only: divide_less_eq_1_pos zero_less_power zero_less_numeral)
    then show ?thesis by (simp add: eps_def)
  qed
  have "300 * B = (of_int (600 * \<bar>n\<bar>) * eps) / (2 * of_nat len)"
    by (simp add: B_def A_def a_def)
  also have "\<dots> < 1 / (2 * of_nat len)"
    using small lenpos by (intro divide_strict_right_mono) simp_all
  finally have "300 * B < 1 / (2 * of_nat len)" .
  with total show ?thesis by (simp add: y_def q1_def a_def)
qed

lemma rate_nearest:
  assumes len: "0 < len" and n: "\<bar>n\<bar> < 2 ^ 43"
  shows "\<bar>of_int (rate n len) - (of_int n :: rat) / of_nat len * 100\<bar> \<le> 1/2"
proof -
  define q :: rat where "q = of_int n / of_nat len * 100"
  define y where "y = fl (fl (of_int n / of_nat len) * 100)"
  define r where "r = rate n len"
  have r: "r = \<lfloor>y + 1/2\<rfloor>" by (simp add: r_def rate_def fmul_def fdiv_def y_def Math_round_def)
  then have ry: "of_int r - 1/2 \<le> y" "y < of_int r + 1/2" by linarith+
  have err: "\<bar>y - q\<bar> < 1 / (2 * of_nat len)"
    unfolding y_def q_def using len n by (rule rate_error)
  have lenpos: "(0::rat) < of_nat len" using len by simp
  have q2: "q * (2 * of_nat len) = of_int (200 * n)" using lenpos by (simp add: q_def)
  have U: "(of_int r + 1/2) * (2 * of_nat len) = (of_int ((2 * r + 1) * int len) :: rat)"
    and U1: "(of_int r + 1/2) * (2 * of_nat len) + 1 = (of_int ((2 * r + 1) * int len + 1) :: rat)"
    and L: "(of_int r - 1/2) * (2 * of_nat len) = (of_int ((2 * r - 1) * int len) :: rat)"
    by (simp_all add: algebra_simps)
  have L1: "q * (2 * of_nat len) + 1 = (of_int (200 * n + 1) :: rat)"
    by (simp add: q2)
  have hi: "q \<le> of_int r + 1/2"
  proof (rule ccontr)
    assume "\<not> q \<le> of_int r + 1/2"
    then have "(of_int r + 1/2) * (2 * of_nat len) < q * (2 * of_nat len)"
      using lenpos by simp
    then have "(of_int ((2 * r + 1) * int len) :: rat) < of_int (200 * n)"
      by (simp only: q2 U)
    then have "(2 * r + 1) * int len < 200 * n" by (simp only: of_int_less_iff)
    then have "(2 * r + 1) * int len + 1 \<le> 200 * n" by simp
    then have "(of_int ((2 * r + 1) * int len + 1) :: rat) \<le> of_int (200 * n)"
      by (simp only: of_int_le_iff)
    then have "(of_int r + 1/2) * (2 * of_nat len) + 1 \<le> q * (2 * of_nat len)"
      by (simp only: q2 U1)
    then have "of_int r + 1/2 + 1 / (2 * of_nat len) \<le> q"
      using lenpos by (simp add: field_simps)
    with ry(2) err show False by linarith
  qed
  have lo: "of_int r - 1/2 \<le> q"
  proof (rule ccontr)
    assume "\<not> of_int r - 1/2 \<le> q"
    then have "q * (2 * of_nat len) < (of_int r - 1/2) * (2 * of_nat len)"
      using lenpos by simp
    then have "(of_int (200 * n) :: rat) < of_int ((2 * r - 1) * int len)"
      by (simp only: q2 L)
    then have "200 * n < (2 * r - 1) * int len" by (simp only: of_int_less_iff)
    then have "200 * n + 1 \<le> (2 * r - 1) * int len" by simp
    then have "(of_int (200 * n + 1) :: rat) \<le> of_int ((2 * r - 1) * int len)"
      by (simp only: of_int_le_iff)
    then have "q * (2 * of_nat len) + 1 \<le> (of_int r - 1/2) * (2 * of_nat len)"
      by (simp only: L1 L)
    then have "q + 1 / (2 * of_nat len) \<le> of_int r - 1/2"
      using lenpos by (simp add: field_simps)
    with ry(1) err show False by linarith
  qed
  from lo hi show ?thesis unfolding r_def q_def by linarith
qed

lemma completionRate_progress_feed:
  "completionRate (progress_feed n len) = (if 0 < len then rate n len else 0)"
  by (simp add: completionRate_rate progress_feed_def)

lemma rate_values:
  "rate 5 2 = 250" "rate 1 2 = 50" "rate 2 2 = 100" "rate 29 200 = 14" "rate 1 3 = 33"
  by code_simp+

text \<open>
  C5 (amended). For a fixed number of contents the completion rate does not decrease
  when \<open>num_sent\<close> grows, and it is at least 0 when \<open>num_sent\<close> is. It is at most 100
  when \<open>num_sent\<close> is at least 0 and does not exceed the number of contents.
\<close>

theorem completionRate_monotone_bounded:
  "(length (feed_contents f) = length (feed_contents g)
      \<and> feed_num_sent f \<le> feed_num_sent g \<longrightarrow> completionRate f \<le> completionRate g)
   \<and> (0 \<le> feed_num_sent f \<longrightarrow> 0 \<le> completionRate f)
   \<and> (0 \<le> feed_num_sent f \<and> feed_num_sent f \<le> int (length (feed_contents f))
        \<longrightarrow> completionRate f \<le> 100)"
proof -
  let ?len = "length (feed_contents f)"
  have "rate 0 ?len \<le> rate (feed_num_sent f) ?len" if "0 \<le> feed_num_sent f"
    using that by (rule rate_mono)
  then have lower: "0 \<le> feed_num_sent f \<longrightarrow> 0 \<le> completionRate f"
    by (simp add: completionRate_rate rate_0)
  have "rate (feed_num_sent f) ?len \<le> 100"
    if "feed_num_sent f \<le> int ?len" "0 < ?len"
    using rate_mono[OF that(1), of ?len] rate_full[OF that(2)] by simp
  then have upper: "0 \<le> feed_num_sent f \<and> feed_num_sent f \<le> int ?len
        \<longrightarrow> completionRate f \<le> 100"
    by (simp add: completionRate_rate)
  have "length (feed_contents f) = length (feed_contents g)
      \<and> feed_num_sent f \<le> feed_num_sent g \<longrightarrow> completionRate f \<le> completionRate g"
    by (simp add: completionRate_rate rate_mono)
  with lower upper show ?thesis by blast
qed

theorem completionRate_monotone_bounded_witness:
  "length (feed_contents (progress_feed 1 2)) = length (feed_contents (progress_feed 2 2))
   \<and> feed_num_sent (progress_feed 1 2) = 1 \<and> feed_num_sent (progress_feed 2 2) = 2
   \<and> completionRate (progress_feed 1 2) = 50 \<and> completionRate (progress_feed 2 2) = 100
   \<and> completionRate (progress_feed 1 2) \<le> completionRate (progress_feed 2 2)
   \<and> 0 \<le> completionRate (progress_feed 1 2) \<and> completionRate (progress_feed 1 2) \<le> 100"
proof -
  have v: "completionRate (progress_feed 1 2) = 50" "completionRate (progress_feed 2 2) = 100"
    by (simp_all add: completionRate_progress_feed rate_values)
  have h: "length (feed_contents (progress_feed 1 2)) = length (feed_contents (progress_feed 2 2))"
    "feed_num_sent (progress_feed 1 2) = 1" "feed_num_sent (progress_feed 2 2) = 2"
    by (simp_all add: progress_feed_def)
  from completionRate_monotone_bounded[of "progress_feed 1 2" "progress_feed 2 2"] h v
  show ?thesis by simp
qed

theorem completionRate_bounded_counterexample:
  "0 \<le> feed_num_sent (progress_feed 5 2)
   \<and> completionRate (progress_feed 5 2) = 250
   \<and> \<not> completionRate (progress_feed 5 2) \<le> 100
   \<and> (\<exists>s' f'. patch_feed (Some 1) 70 2 sent_patch sample_store
                  = Inr (s', Response 200 (FeedJson f'))
         \<and> getFeed s' 2 = Some f' \<and> feed_num_sent f' = 5
         \<and> length (feed_contents f') = 2 \<and> completionRate f' = 250)"
proof -
  obtain f where f: "getFeed sample_store 2 = Some f" "feed_user_id f = 1"
    "feed_contents f = [lit ''a'', lit ''b'']"
    using sample_feed_2 by blast
  have "\<exists>s' f'. patch_feed (Some 1) 70 2 sent_patch sample_store
                  = Inr (s', Response 200 (FeedJson f'))
         \<and> getFeed s' 2 = Some f' \<and> feed_num_sent f' = 5
         \<and> length (feed_contents f') = 2"
    using f
    by (simp add: patch_feed_owner[OF f(1,2)] updateFeed_Some[OF f(1)] sent_patch_def
          no_feed_patch_def truthy_def getFeed_def update_conv' spread_feed_def spread_def)
  then obtain s' f' where p: "patch_feed (Some 1) 70 2 sent_patch sample_store
                  = Inr (s', Response 200 (FeedJson f'))"
    "getFeed s' 2 = Some f'" "feed_num_sent f' = 5" "length (feed_contents f') = 2"
    by blast
  then have "completionRate f' = 250" by (simp add: completionRate_rate rate_values)
  with p have "\<exists>s' f'. patch_feed (Some 1) 70 2 sent_patch sample_store
                  = Inr (s', Response 200 (FeedJson f'))
         \<and> getFeed s' 2 = Some f' \<and> feed_num_sent f' = 5
         \<and> length (feed_contents f') = 2 \<and> completionRate f' = 250"
    by blast
  then show ?thesis
    by (simp add: completionRate_progress_feed rate_values) (simp add: progress_feed_def)
qed

text \<open>
  C6 (amended). The completion rate is 0 for a feed without contents. For a feed with
  contents (and \<open>num_sent\<close> below \<open>2^43\<close> in magnitude) it is an integer nearest to
  \<open>num_sent / contents.length * 100\<close>, at most one half away from it: it equals the
  rounding of the exact value except possibly when the exact value lies halfway between
  two integers, where the evaluation in double precision may give the lower one.
\<close>

theorem completionRate_nearest_integer:
  "(length (feed_contents f) = 0 \<longrightarrow> completionRate f = 0)
   \<and> (0 < length (feed_contents f) \<and> \<bar>feed_num_sent f\<bar> < 2 ^ 43 \<longrightarrow>
        \<bar>of_int (completionRate f)
           - (of_int (feed_num_sent f) :: rat) / of_nat (length (feed_contents f)) * 100\<bar> \<le> 1/2
        \<and> (completionRate f = completionPercent_spec f
             \<or> completionRate f = completionPercent_spec f - 1
               \<and> (of_int (feed_num_sent f) :: rat) / of_nat (length (feed_contents f)) * 100
                   = of_int (completionRate f) + 1/2))"
proof -
  let ?len = "length (feed_contents f)"
  let ?q = "(of_int (feed_num_sent f) :: rat) / of_nat ?len * 100"
  have zero: "?len = 0 \<longrightarrow> completionRate f = 0" by (simp add: completionRate_def)
  have "\<bar>of_int (completionRate f) - ?q\<bar> \<le> 1/2
        \<and> (completionRate f = completionPercent_spec f
             \<or> completionRate f = completionPercent_spec f - 1
               \<and> ?q = of_int (completionRate f) + 1/2)"
    if len: "0 < ?len" and n: "\<bar>feed_num_sent f\<bar> < 2 ^ 43"
  proof -
    have r: "completionRate f = rate (feed_num_sent f) ?len"
      using len by (simp add: completionRate_rate)
    have near: "\<bar>of_int (completionRate f) - ?q\<bar> \<le> 1/2"
      unfolding r using len n by (rule rate_nearest)
    have s: "completionPercent_spec f = \<lfloor>?q + 1/2\<rfloor>"
      using len by (simp add: completionPercent_spec_def round_def)
    then have sq: "of_int (completionPercent_spec f) \<le> ?q + 1/2"
      "?q + 1/2 < of_int (completionPercent_spec f) + 1" by linarith+
    from near have nq: "of_int (completionRate f) - 1/2 \<le> ?q"
      "?q \<le> of_int (completionRate f) + 1/2" by linarith+
    have "(of_int (completionRate f) :: rat) < of_int (completionPercent_spec f) + 1"
      using nq(1) sq(2) by linarith
    then have up: "completionRate f \<le> completionPercent_spec f" by linarith
    have "(of_int (completionPercent_spec f) :: rat) \<le> of_int (completionRate f) + 1"
      using nq(2) sq(1) by linarith
    then have down: "completionPercent_spec f - 1 \<le> completionRate f" by linarith
    have "?q = of_int (completionRate f) + 1/2"
      if "completionRate f = completionPercent_spec f - 1"
      using that nq(2) sq(1) by simp
    with up down near show ?thesis by force
  qed
  with zero show ?thesis by blast
qed

theorem completionRate_nearest_integer_witness:
  "0 < length (feed_contents (progress_feed 1 3))
   \<and> \<bar>feed_num_sent (progress_feed 1 3)\<bar> < 2 ^ 43
   \<and> completionRate (progress_feed 1 3) = 33
   \<and> completionPercent_spec (progress_feed 1 3) = 33
   \<and> \<bar>of_int (completionRate (progress_feed 1 3)) - (1::rat) / 3 * 100\<bar> \<le> 1/2
   \<and> completionRate (progress_feed 7 0) = 0"
proof -
  have v: "completionRate (progress_feed 1 3) = 33"
    by (simp add: completionRate_progress_feed rate_values)
  have h: "0 < length (feed_contents (progress_feed 1 3))"
    "\<bar>feed_num_sent (progress_feed 1 3)\<bar> < 2 ^ 43"
    "length (feed_contents (progress_feed 1 3)) = 3" "feed_num_sent (progress_feed 1 3) = 1"
    "length (feed_contents (progress_feed 7 0)) = 0"
    by (simp_all add: progress_feed_def)
  have s: "completionPercent_spec (progress_feed 1 3) = 33"
    by (simp add: completionPercent_spec_def h round_def) linarith
  from completionRate_nearest_integer[of "progress_feed 1 3"]
    completionRate_nearest_integer[of "progress_feed 7 0"] h v s
  show ?thesis by simp
qed

text \<open>
  The doubles on the way: \<open>29 / 200\<close> is \<open>0.14499999999999999\<close>, its product with
  100 is \<open>14.499999999999998\<close>, below the exact \<open>14.5\<close>.
\<close>

lemma progress_29_of_200:
  "fdiv 29 200 = 5224175567749775 / 2 ^ 55"
  "fmul (fdiv 29 200) 100 = 8162774324609023 / 2 ^ 49"
  by code_simp+

theorem completionRate_round_counterexample:
  "0 < length (feed_contents (progress_feed 29 200))
   \<and> feed_num_sent (progress_feed 29 200) = 29
   \<and> length (feed_contents (progress_feed 29 200)) = 200
   \<and> fdiv 29 200 = 5224175567749775 / 2 ^ 55
   \<and> fmul (fdiv 29 200) 100 = 8162774324609023 / 2 ^ 49
   \<and> fmul (fdiv 29 200) 100 < 29 / 2
   \<and> completionRate (progress_feed 29 200) = 14
   \<and> round ((29::rat) / 200 * 100) = 15
   \<and> completionPercent_spec (progress_feed 29 200) = 15"
proof -
  have h: "length (feed_contents (progress_feed 29 200)) = 200"
    "feed_num_sent (progress_feed 29 200) = 29"
    by (simp_all add: progress_feed_def)
  have pos: "0 < length (feed_contents (progress_feed 29 200))" by (simp add: h)
  have r: "round ((29::rat) / 200 * 100) = 15" by (simp add: round_def)
  have lt: "fmul (fdiv 29 200) 100 < 29 / 2"
    unfolding progress_29_of_200(2) by simp
  have c: "completionRate (progress_feed 29 200) = 14"
    by (simp add: completionRate_progress_feed rate_values)
  have sp: "completionPercent_spec (progress_feed 29 200) = 15"
    using r by (simp add: completionPercent_spec_def h)
  note facts = pos h progress_29_of_200 lt c r sp
  show ?thesis by (intro conjI) (rule facts)+
qed

end
